theory Spec2Isabelle
  imports Main
begin

section \<open>The generic set of \<^verbatim>\<open>mtm_set.h\<close> and its C++ adapter \<^verbatim>\<open>mtm::set\<close>\<close>

text \<open>
  The repository has two layers. \<^verbatim>\<open>mtm_set.h\<close> declares a type-erased ordered set in C
  (the engine); \<^verbatim>\<open>mtm_set.hpp\<close> defines the class template \<^verbatim>\<open>mtm::set<T, CmpFcn>\<close> on top
  of it. The element type \<^verbatim>\<open>T\<close> is a type variable \<open>'a\<close>, its \<^verbatim>\<open>operator==\<close> is HOL
  equality, and the order predicate \<^verbatim>\<open>CmpFcn\<close> is a parameter \<open>lt\<close>.

  Pointers are modelled by an explicit store. An engine handle (\<^verbatim>\<open>Set\<close>, a
  \<^verbatim>\<open>Set_t*\<close>) is an optional address into the engine heap, \<open>None\<close> being \<^verbatim>\<open>NULL\<close>; a set
  object is addressed by a natural number (its \<^verbatim>\<open>this\<close>) into the object memory, and an
  iterator keeps the address of its owner as the source does.
\<close>

subsection \<open>Data of the C interface (\<^verbatim>\<open>mtm_set.h\<close>)\<close>

datatype SetResult =
    SET_SUCCESS
  | SET_OUT_OF_MEMORY
  | SET_NULL_ARGUMENT
  | SET_ITEM_ALREADY_EXISTS
  | SET_ITEM_DOES_NOT_EXIST

text \<open>\<^verbatim>\<open>typedef void* SetElement\<close>: a pointer to a \<^verbatim>\<open>T\<close>, \<open>None\<close> is \<^verbatim>\<open>NULL\<close>.\<close>
type_synonym 'a SetElement = "'a option"

text \<open>\<^verbatim>\<open>typedef void* SetIterator\<close>: a position inside the engine, \<open>None\<close> is \<^verbatim>\<open>NULL\<close>.\<close>
type_synonym SetIterator = "nat option"

text \<open>\<^verbatim>\<open>typedef struct Set_t *Set\<close>: the address of an engine, \<open>None\<close> is \<^verbatim>\<open>NULL\<close>.\<close>
type_synonym Set = "nat option"

type_synonym 'a copySetElements = "'a SetElement \<Rightarrow> 'a SetElement"
type_synonym 'a freeSetElements = "'a SetElement \<Rightarrow> unit"
type_synonym 'a compareSetElements = "'a SetElement \<Rightarrow> 'a SetElement \<Rightarrow> int"

text \<open>
  Modelled from the spec: \<^verbatim>\<open>struct Set_t\<close> is declared in \<^verbatim>\<open>mtm_set.h\<close> but defined in the
  engine's implementation file, which is not among the sources. The spec describes the
  handle as holding an ordered sequence of element slots and the three function references
  fixed at creation. Every slot holds an engine-owned copy of an element; a position is the
  index of a slot.
\<close>
record 'a Set_t =
  slots :: "'a list"
  copyElement :: "'a copySetElements"
  freeElement :: "'a freeSetElements"
  compareElements :: "'a compareSetElements"

text \<open>The private data of one \<^verbatim>\<open>mtm::set\<close> object.\<close>
record set_object =
  m_CSet :: Set

text \<open>
  The store. \<open>engines\<close> is the engine heap (the live \<^verbatim>\<open>Set_t\<close> structures),
  \<open>next_handle\<close> the next address the allocator hands out, \<open>alloc_plan\<close> the outcome of the
  coming requests for a new engine (\<open>False\<close>: the request fails; an exhausted plan grants
  every request), and \<open>objects\<close> the memory holding the \<^verbatim>\<open>mtm::set\<close> objects.
\<close>
record 'a world =
  engines :: "nat \<rightharpoonup> 'a Set_t"
  next_handle :: nat
  alloc_plan :: "bool list"
  objects :: "nat \<Rightarrow> set_object"

text \<open>
  Modelled from the spec: the allocation of a new engine by create and copy, which fails
  with OutOfMemory "if allocation fails". The request follows the plan.
\<close>
definition alloc_handle :: "'a world \<Rightarrow> nat option \<times> 'a world" where
  "alloc_handle w =
     (case alloc_plan w of
        [] \<Rightarrow> (Some (next_handle w), w\<lparr>next_handle := Suc (next_handle w)\<rparr>)
      | granted # rest \<Rightarrow>
          if granted
          then (Some (next_handle w),
                w\<lparr>next_handle := Suc (next_handle w), alloc_plan := rest\<rparr>)
          else (None, w\<lparr>alloc_plan := rest\<rparr>))"

subsection \<open>The engine\<close>

text \<open>
  Modelled from the spec: the functions declared in \<^verbatim>\<open>mtm_set.h\<close> are implemented in a file
  of the repository that is not among the sources. Each definition below follows the
  contract of the spec (section 4.1) and the documentation comment of its declaration. A
  handle that is \<^verbatim>\<open>NULL\<close> or does not address a live engine is an absent handle.
\<close>

text \<open>
  Modelled from the spec: the scan shared by add and remove, "terminating at the first
  element not less than the target". It returns the index where the scan stops and whether
  the element there compares equal to the target.
\<close>
fun locate :: "'a compareSetElements \<Rightarrow> 'a SetElement \<Rightarrow> 'a list \<Rightarrow> nat \<times> bool" where
  "locate cmp target [] = (0, False)"
| "locate cmp target (y # ys) =
     (if cmp (Some y) target < 0
      then (case locate cmp target ys of (k, found) \<Rightarrow> (Suc k, found))
      else (0, cmp (Some y) target = 0))"

text \<open>
  Modelled from the spec: the deep copy of every element through the stored copy function;
  it fails as soon as one copy fails.
\<close>
fun copy_slots :: "'a copySetElements \<Rightarrow> 'a list \<Rightarrow> 'a list option" where
  "copy_slots cp [] = Some []"
| "copy_slots cp (x # xs) =
     (case cp (Some x) of
        None \<Rightarrow> None
      | Some c \<Rightarrow> (case copy_slots cp xs of None \<Rightarrow> None | Some cs \<Rightarrow> Some (c # cs)))"

text \<open>
  Modelled from the spec: \<^verbatim>\<open>setCreate\<close> returns \<^verbatim>\<open>NULL\<close> if a function reference is absent
  or the allocation fails, and a new empty set otherwise.
\<close>
definition setCreate ::
  "'a world \<Rightarrow> 'a copySetElements option \<Rightarrow> 'a freeSetElements option \<Rightarrow>
   'a compareSetElements option \<Rightarrow> Set \<times> 'a world" where
  "setCreate w copyElement' freeElement' compareElements' =
     (case copyElement' of None \<Rightarrow> (None, w) | Some cp \<Rightarrow>
     (case freeElement' of None \<Rightarrow> (None, w) | Some fr \<Rightarrow>
     (case compareElements' of None \<Rightarrow> (None, w) | Some cmp \<Rightarrow>
     (case alloc_handle w of
        (None, w') \<Rightarrow> (None, w')
      | (Some h, w') \<Rightarrow>
          (Some h,
           w'\<lparr>engines := (engines w')(h \<mapsto>
                 \<lparr>slots = [], copyElement = cp, freeElement = fr,
                  compareElements = cmp\<rparr>)\<rparr>)))))"

text \<open>
  Modelled from the spec: \<^verbatim>\<open>setCopy\<close> returns \<^verbatim>\<open>NULL\<close> for an absent handle or when an
  allocation or an element copy fails, leaving the original untouched; otherwise a new
  handle with a copy of every element.
\<close>
definition setCopy :: "'a world \<Rightarrow> Set \<Rightarrow> Set \<times> 'a world" where
  "setCopy w s =
     (case s of None \<Rightarrow> (None, w) | Some h \<Rightarrow>
     (case engines w h of None \<Rightarrow> (None, w) | Some st \<Rightarrow>
     (case alloc_handle w of
        (None, w') \<Rightarrow> (None, w')
      | (Some h', w') \<Rightarrow>
          (case copy_slots (copyElement st) (slots st) of
             None \<Rightarrow> (None, w')
           | Some cs \<Rightarrow> (Some h', w'\<lparr>engines := (engines w')(h' \<mapsto> st\<lparr>slots := cs\<rparr>)\<rparr>)))))"

text \<open>
  Modelled from the spec: \<^verbatim>\<open>setDestroy\<close> frees every element and the handle, and does
  nothing on an absent handle.
\<close>
definition setDestroy :: "'a world \<Rightarrow> Set \<Rightarrow> 'a world" where
  "setDestroy w s =
     (case s of None \<Rightarrow> w | Some h \<Rightarrow>
     (case engines w h of None \<Rightarrow> w | Some st \<Rightarrow>
        w\<lparr>engines := (engines w)(h := None)\<rparr>))"

text \<open>Modelled from the spec: \<^verbatim>\<open>setGetSize\<close>, with \<open>-1\<close> for an absent handle.\<close>
definition setGetSize :: "'a world \<Rightarrow> Set \<Rightarrow> int" where
  "setGetSize w s =
     (case s of None \<Rightarrow> - 1 | Some h \<Rightarrow>
     (case engines w h of None \<Rightarrow> - 1 | Some st \<Rightarrow> int (length (slots st))))"

text \<open>
  Modelled from the spec: \<^verbatim>\<open>setGetFirst\<close> is the position of the minimal element, or
  \<^verbatim>\<open>NULL\<close> for an absent handle or an empty set.
\<close>
definition setGetFirst :: "'a world \<Rightarrow> Set \<Rightarrow> SetIterator" where
  "setGetFirst w s =
     (case s of None \<Rightarrow> None | Some h \<Rightarrow>
     (case engines w h of None \<Rightarrow> None | Some st \<Rightarrow>
        if slots st = [] then None else Some 0))"

text \<open>
  Modelled from the spec: \<^verbatim>\<open>setGetNext\<close> is the position of the next element in ascending
  order, or \<^verbatim>\<open>NULL\<close> if the position was the last one or is invalid.
\<close>
definition setGetNext :: "'a world \<Rightarrow> Set \<Rightarrow> SetIterator \<Rightarrow> SetIterator" where
  "setGetNext w s iter =
     (case s of None \<Rightarrow> None | Some h \<Rightarrow>
     (case engines w h of None \<Rightarrow> None | Some st \<Rightarrow>
     (case iter of None \<Rightarrow> None | Some i \<Rightarrow>
        if Suc i < length (slots st) then Some (Suc i) else None)))"

text \<open>
  Modelled from the spec: \<^verbatim>\<open>setGetElement\<close> is the element at the position, or \<^verbatim>\<open>NULL\<close> if
  the position is invalid or past the end.
\<close>
definition setGetElement :: "'a world \<Rightarrow> Set \<Rightarrow> SetIterator \<Rightarrow> 'a SetElement" where
  "setGetElement w s iter =
     (case s of None \<Rightarrow> None | Some h \<Rightarrow>
     (case engines w h of None \<Rightarrow> None | Some st \<Rightarrow>
     (case iter of None \<Rightarrow> None | Some i \<Rightarrow>
        if i < length (slots st) then Some (slots st ! i) else None)))"

text \<open>
  Modelled from the spec: \<^verbatim>\<open>setAdd\<close> scans for the insertion point; an equal element gives
  \<^verbatim>\<open>SET_ITEM_ALREADY_EXISTS\<close> and no change; otherwise the element is copied through the
  stored copy function (\<^verbatim>\<open>SET_OUT_OF_MEMORY\<close> and no change if that copy fails) and the copy
  is inserted at the insertion point.
\<close>
definition setAdd :: "'a world \<Rightarrow> Set \<Rightarrow> 'a SetElement \<Rightarrow> SetResult \<times> 'a world" where
  "setAdd w s element =
     (case s of None \<Rightarrow> (SET_NULL_ARGUMENT, w) | Some h \<Rightarrow>
     (case engines w h of None \<Rightarrow> (SET_NULL_ARGUMENT, w) | Some st \<Rightarrow>
     (case element of None \<Rightarrow> (SET_NULL_ARGUMENT, w) | Some _ \<Rightarrow>
     (case locate (compareElements st) element (slots st) of (k, found) \<Rightarrow>
        if found then (SET_ITEM_ALREADY_EXISTS, w)
        else
          (case copyElement st element of
             None \<Rightarrow> (SET_OUT_OF_MEMORY, w)
           | Some c \<Rightarrow>
               (SET_SUCCESS,
                w\<lparr>engines := (engines w)(h \<mapsto>
                     st\<lparr>slots := take k (slots st) @ c # drop k (slots st)\<rparr>)\<rparr>))))))"

text \<open>
  Modelled from the spec: \<^verbatim>\<open>setRemove\<close> locates an equal stored element; if there is none
  it reports \<^verbatim>\<open>SET_ITEM_DOES_NOT_EXIST\<close>, otherwise it frees the element and removes its
  slot.
\<close>
definition setRemove :: "'a world \<Rightarrow> Set \<Rightarrow> 'a SetElement \<Rightarrow> SetResult \<times> 'a world" where
  "setRemove w s element =
     (case s of None \<Rightarrow> (SET_NULL_ARGUMENT, w) | Some h \<Rightarrow>
     (case engines w h of None \<Rightarrow> (SET_NULL_ARGUMENT, w) | Some st \<Rightarrow>
     (case element of None \<Rightarrow> (SET_NULL_ARGUMENT, w) | Some _ \<Rightarrow>
     (case locate (compareElements st) element (slots st) of (k, found) \<Rightarrow>
        if found
        then (SET_SUCCESS,
              w\<lparr>engines := (engines w)(h \<mapsto>
                   st\<lparr>slots := take k (slots st) @ drop (Suc k) (slots st)\<rparr>)\<rparr>)
        else (SET_ITEM_DOES_NOT_EXIST, w)))))"

text \<open>Modelled from the spec: \<^verbatim>\<open>setClear\<close> frees every element and yields an empty set.\<close>
definition setClear :: "'a world \<Rightarrow> Set \<Rightarrow> SetResult \<times> 'a world" where
  "setClear w s =
     (case s of None \<Rightarrow> (SET_NULL_ARGUMENT, w) | Some h \<Rightarrow>
     (case engines w h of None \<Rightarrow> (SET_NULL_ARGUMENT, w) | Some st \<Rightarrow>
        (SET_SUCCESS, w\<lparr>engines := (engines w)(h \<mapsto> st\<lparr>slots := []\<rparr>)\<rparr>)))"

subsection \<open>The adapter \<^verbatim>\<open>mtm::set<T, CmpFcn>\<close> (\<^verbatim>\<open>mtm_set.hpp\<close>)\<close>

text \<open>
  What a member function can end with instead of returning: one of the three exception
  classes of the adapter, or a failed \<^verbatim>\<open>assert\<close>. \<^verbatim>\<open>operator new\<close> is taken to succeed.
\<close>
datatype error = Exception | ElementNotFound | InvalidIterator | AssertionFailed

record const_iterator =
  m_Owner :: nat
  m_Current :: SetIterator

definition CompareElementFcn :: "('a \<Rightarrow> 'a \<Rightarrow> bool) \<Rightarrow> 'a SetElement \<Rightarrow> 'a SetElement \<Rightarrow> int" where
  "CompareElementFcn lt left right =
     (case left of None \<Rightarrow> 0 | Some leftT \<Rightarrow>
     (case right of None \<Rightarrow> 0 | Some rightT \<Rightarrow>
        if lt leftT rightT then - 1
        else if lt rightT leftT then 1
        else 0))"

definition CopyElementFcn :: "'a SetElement \<Rightarrow> 'a SetElement" where
  "CopyElementFcn lmnt = (case lmnt of None \<Rightarrow> None | Some lmntT \<Rightarrow> Some lmntT)"

definition DestroyElementFcn :: "'a SetElement \<Rightarrow> unit" where
  "DestroyElementFcn lmnt = ()"

text \<open>\<^verbatim>\<open>set()\<close>, constructing at address \<open>this\<close>.\<close>
definition set_ctor :: "('a \<Rightarrow> 'a \<Rightarrow> bool) \<Rightarrow> 'a world \<Rightarrow> nat \<Rightarrow> (error + unit) \<times> 'a world" where
  "set_ctor lt w this =
     (let w0 = w\<lparr>objects := (objects w)(this := \<lparr>m_CSet = None\<rparr>)\<rparr> in
      case setCreate w0 (Some CopyElementFcn) (Some DestroyElementFcn)
             (Some (CompareElementFcn lt)) of
        (cset, w1) \<Rightarrow>
          (let w2 = w1\<lparr>objects := (objects w1)(this := \<lparr>m_CSet = cset\<rparr>)\<rparr> in
           if cset = None then (Inl Exception, w2) else (Inr (), w2)))"

text \<open>\<^verbatim>\<open>set(const set& sourceSet)\<close>, constructing at address \<open>this\<close>.\<close>
definition set_copy_ctor :: "'a world \<Rightarrow> nat \<Rightarrow> nat \<Rightarrow> (error + unit) \<times> 'a world" where
  "set_copy_ctor w this sourceSet =
     (let w0 = w\<lparr>objects := (objects w)(this := \<lparr>m_CSet = None\<rparr>)\<rparr> in
      case setCopy w0 (m_CSet (objects w0 sourceSet)) of
        (cset, w1) \<Rightarrow>
          (let w2 = w1\<lparr>objects := (objects w1)(this := \<lparr>m_CSet = cset\<rparr>)\<rparr> in
           if cset = None then (Inl Exception, w2) else (Inr (), w2)))"

text \<open>\<^verbatim>\<open>operator=\<close>; it returns \<^verbatim>\<open>*this\<close>, here the address \<open>this\<close>.\<close>
definition operator_assign :: "'a world \<Rightarrow> nat \<Rightarrow> nat \<Rightarrow> (error + nat) \<times> 'a world" where
  "operator_assign w this sourceSet =
     (if this = sourceSet then (Inr this, w)
      else
        (let w0 = setDestroy w (m_CSet (objects w this)) in
         case setCopy w0 (m_CSet (objects w0 sourceSet)) of
           (cset, w1) \<Rightarrow>
             (let w2 = w1\<lparr>objects := (objects w1)(this := \<lparr>m_CSet = cset\<rparr>)\<rparr> in
              if cset = None then (Inl Exception, w2) else (Inr this, w2))))"

definition set_size :: "'a world \<Rightarrow> nat \<Rightarrow> error + int" where
  "set_size w this =
     (if m_CSet (objects w this) = None then Inl AssertionFailed
      else Inr (setGetSize w (m_CSet (objects w this))))"

subsubsection \<open>Iteration\<close>

definition set_begin :: "'a world \<Rightarrow> nat \<Rightarrow> const_iterator" where
  "set_begin w this =
     \<lparr>m_Owner = this, m_Current = setGetFirst w (m_CSet (objects w this))\<rparr>"

text \<open>Prefix \<^verbatim>\<open>operator++\<close>.\<close>
definition operator_inc :: "'a world \<Rightarrow> const_iterator \<Rightarrow> const_iterator" where
  "operator_inc w it =
     it\<lparr>m_Current := setGetNext w (m_CSet (objects w (m_Owner it))) (m_Current it)\<rparr>"

text \<open>\<^verbatim>\<open>operator*\<close>.\<close>
definition operator_deref :: "'a world \<Rightarrow> const_iterator \<Rightarrow> error + 'a" where
  "operator_deref w it =
     (case setGetElement w (m_CSet (objects w (m_Owner it))) (m_Current it) of
        None \<Rightarrow> Inl InvalidIterator
      | Some element \<Rightarrow> Inr element)"

text \<open>\<^verbatim>\<open>operator==\<close> and \<^verbatim>\<open>operator!=\<close>.\<close>
definition operator_eq :: "const_iterator \<Rightarrow> const_iterator \<Rightarrow> bool" where
  "operator_eq it other = (m_Current it = m_Current other)"

definition operator_neq :: "const_iterator \<Rightarrow> const_iterator \<Rightarrow> bool" where
  "operator_neq it other = (\<not> operator_eq it other)"

text \<open>The elements of the engine an object owns, in slot order (none for an absent handle).\<close>
definition contents :: "'a world \<Rightarrow> nat \<Rightarrow> 'a list" where
  "contents w this =
     (case m_CSet (objects w this) of None \<Rightarrow> [] | Some h \<Rightarrow>
     (case engines w h of None \<Rightarrow> [] | Some st \<Rightarrow> slots st))"

text \<open>The number of positions an iterator can still visit; it bounds every loop below.\<close>
definition remaining :: "'a world \<Rightarrow> const_iterator \<Rightarrow> nat" where
  "remaining w it =
     (case m_Current it of
        None \<Rightarrow> 0
      | Some i \<Rightarrow> Suc (length (contents w (m_Owner it)) - i))"

text \<open>The loop of \<^verbatim>\<open>end()\<close>: advance until the position is \<^verbatim>\<open>NULL\<close>.\<close>
function end_loop :: "'a world \<Rightarrow> const_iterator \<Rightarrow> const_iterator" where
  "end_loop w iterator =
     (if m_Current iterator \<noteq> None then end_loop w (operator_inc w iterator) else iterator)"
  by pat_completeness auto
termination
proof (relation "measure (\<lambda>(w, it). remaining w it)")
  show "wf (measure (\<lambda>(w :: 'a world, it). remaining w it))"
    by simp
next
  fix w :: "'a world" and iterator :: const_iterator
  assume "m_Current iterator \<noteq> None"
  then obtain i where "m_Current iterator = Some i"
    by auto
  then have "remaining w (operator_inc w iterator) < remaining w iterator"
    by (auto simp: remaining_def operator_inc_def setGetNext_def contents_def
        split: option.splits)
  then show "((w, operator_inc w iterator), (w, iterator))
      \<in> measure (\<lambda>(w, it). remaining w it)"
    by simp
qed

declare end_loop.simps [simp del]

definition set_end :: "'a world \<Rightarrow> nat \<Rightarrow> const_iterator" where
  "set_end w this = end_loop w (set_begin w this)"

definition set_cbegin :: "'a world \<Rightarrow> nat \<Rightarrow> const_iterator" where
  "set_cbegin w this = set_begin w this"

definition set_cend :: "'a world \<Rightarrow> nat \<Rightarrow> const_iterator" where
  "set_cend w this = set_end w this"

subsubsection \<open>Lookup and modification\<close>

text \<open>The loop of \<^verbatim>\<open>find(T const&)\<close>, from the position \<open>it\<close> on.\<close>
function find_loop :: "'a world \<Rightarrow> nat \<Rightarrow> 'a \<Rightarrow> const_iterator \<Rightarrow> error + const_iterator" where
  "find_loop w this element it =
     (if operator_neq it (set_end w this)
      then (case operator_deref w it of
              Inl e \<Rightarrow> Inl e
            | Inr x \<Rightarrow>
                if x = element then Inr it
                else find_loop w this element (operator_inc w it))
      else Inl ElementNotFound)"
  by pat_completeness auto
termination
proof (relation "measure (\<lambda>(w, this, element, it). remaining w it)")
  show "wf (measure (\<lambda>(w :: 'a world, this :: nat, element :: 'a, it). remaining w it))"
    by simp
next
  fix w :: "'a world" and this :: nat and element x :: 'a and it :: const_iterator
  assume "operator_deref w it = Inr x"
  then obtain i where "m_Current it = Some i"
    by (cases "m_Current it")
       (auto simp: operator_deref_def setGetElement_def split: option.splits)
  then have "remaining w (operator_inc w it) < remaining w it"
    by (auto simp: remaining_def operator_inc_def setGetNext_def contents_def
        split: option.splits)
  then show "((w, this, element, operator_inc w it), (w, this, element, it))
      \<in> measure (\<lambda>(w, this, element, it). remaining w it)"
    by simp
qed

declare find_loop.simps [simp del]

definition set_find :: "'a world \<Rightarrow> nat \<Rightarrow> 'a \<Rightarrow> error + const_iterator" where
  "set_find w this element = find_loop w this element (set_begin w this)"

text \<open>The loop of \<^verbatim>\<open>find(T const&) const\<close>, written out a second time in the source.\<close>
function find_const_loop ::
  "'a world \<Rightarrow> nat \<Rightarrow> 'a \<Rightarrow> const_iterator \<Rightarrow> error + const_iterator" where
  "find_const_loop w this element it =
     (if operator_neq it (set_end w this)
      then (case operator_deref w it of
              Inl e \<Rightarrow> Inl e
            | Inr x \<Rightarrow>
                if x = element then Inr it
                else find_const_loop w this element (operator_inc w it))
      else Inl ElementNotFound)"
  by pat_completeness auto
termination
proof (relation "measure (\<lambda>(w, this, element, it). remaining w it)")
  show "wf (measure (\<lambda>(w :: 'a world, this :: nat, element :: 'a, it). remaining w it))"
    by simp
next
  fix w :: "'a world" and this :: nat and element x :: 'a and it :: const_iterator
  assume "operator_deref w it = Inr x"
  then obtain i where "m_Current it = Some i"
    by (cases "m_Current it")
       (auto simp: operator_deref_def setGetElement_def split: option.splits)
  then have "remaining w (operator_inc w it) < remaining w it"
    by (auto simp: remaining_def operator_inc_def setGetNext_def contents_def
        split: option.splits)
  then show "((w, this, element, operator_inc w it), (w, this, element, it))
      \<in> measure (\<lambda>(w, this, element, it). remaining w it)"
    by simp
qed

declare find_const_loop.simps [simp del]

definition set_find_const :: "'a world \<Rightarrow> nat \<Rightarrow> 'a \<Rightarrow> error + const_iterator" where
  "set_find_const w this element = find_const_loop w this element (set_begin w this)"

definition set_insert ::
  "'a world \<Rightarrow> nat \<Rightarrow> 'a \<Rightarrow> (error + const_iterator \<times> bool) \<times> 'a world" where
  "set_insert w this data =
     (if m_CSet (objects w this) = None then (Inl AssertionFailed, w)
      else
        (case setAdd w (m_CSet (objects w this)) (Some data) of
           (res, w') \<Rightarrow>
             if res = SET_NULL_ARGUMENT then (Inl AssertionFailed, w')
             else if res = SET_OUT_OF_MEMORY then (Inl Exception, w')
             else if res = SET_ITEM_ALREADY_EXISTS
             then (case set_find w' this data of
                     Inl e \<Rightarrow> (Inl e, w')
                   | Inr it \<Rightarrow> (Inr (it, False), w'))
             else (case set_find w' this data of
                     Inl e \<Rightarrow> (Inl e, w')
                   | Inr it \<Rightarrow> (Inr (it, True), w'))))"

text \<open>\<^verbatim>\<open>erase(T const& element)\<close>.\<close>
definition set_erase :: "'a world \<Rightarrow> nat \<Rightarrow> 'a \<Rightarrow> (error + unit) \<times> 'a world" where
  "set_erase w this element =
     (if m_CSet (objects w this) = None then (Inl AssertionFailed, w)
      else
        (case setRemove w (m_CSet (objects w this)) (Some element) of
           (res, w') \<Rightarrow>
             if res = SET_ITEM_DOES_NOT_EXIST then (Inl ElementNotFound, w')
             else (Inr (), w')))"

text \<open>\<^verbatim>\<open>erase(const_iterator iter)\<close>.\<close>
definition set_erase_iter ::
  "'a world \<Rightarrow> nat \<Rightarrow> const_iterator \<Rightarrow> (error + unit) \<times> 'a world" where
  "set_erase_iter w this iter =
     (case operator_deref w iter of
        Inl e \<Rightarrow> (Inl e, w)
      | Inr element \<Rightarrow> set_erase w this element)"

definition set_clear :: "'a world \<Rightarrow> nat \<Rightarrow> (error + unit) \<times> 'a world" where
  "set_clear w this =
     (if m_CSet (objects w this) = None then (Inl AssertionFailed, w)
      else (Inr (), snd (setClear w (m_CSet (objects w this)))))"

subsection \<open>Client code\<close>

text \<open>
  The iteration the class comment of \<^verbatim>\<open>mtm_set.hpp\<close> gives,
  \<^verbatim>\<open>for (it = cont.cbegin(); it != cont.end(); ++it)\<close>, collecting \<^verbatim>\<open>*it\<close>.
\<close>
function visit_loop :: "'a world \<Rightarrow> nat \<Rightarrow> const_iterator \<Rightarrow> error + 'a list" where
  "visit_loop w this it =
     (if operator_neq it (set_end w this)
      then (case operator_deref w it of
              Inl e \<Rightarrow> Inl e
            | Inr x \<Rightarrow>
                (case visit_loop w this (operator_inc w it) of
                   Inl e \<Rightarrow> Inl e
                 | Inr xs \<Rightarrow> Inr (x # xs)))
      else Inr [])"
  by pat_completeness auto
termination
proof (relation "measure (\<lambda>(w, this, it). remaining w it)")
  show "wf (measure (\<lambda>(w :: 'a world, this :: nat, it). remaining w it))"
    by simp
next
  fix w :: "'a world" and this :: nat and x :: 'a and it :: const_iterator
  assume "operator_deref w it = Inr x"
  then obtain i where "m_Current it = Some i"
    by (cases "m_Current it")
       (auto simp: operator_deref_def setGetElement_def split: option.splits)
  then have "remaining w (operator_inc w it) < remaining w it"
    by (auto simp: remaining_def operator_inc_def setGetNext_def contents_def
        split: option.splits)
  then show "((w, this, operator_inc w it), (w, this, it))
      \<in> measure (\<lambda>(w, this, it). remaining w it)"
    by simp
qed

declare visit_loop.simps [simp del]

definition iterate :: "'a world \<Rightarrow> nat \<Rightarrow> error + 'a list" where
  "iterate w this = visit_loop w this (set_cbegin w this)"

text \<open>A sequence of calls of \<^verbatim>\<open>insert\<close> on one object, stopping at the first that raises.\<close>
fun insert_all :: "'a world \<Rightarrow> nat \<Rightarrow> 'a list \<Rightarrow> error + 'a world" where
  "insert_all w this [] = Inr w"
| "insert_all w this (v # vs) =
     (case set_insert w this v of
        (Inl e, w') \<Rightarrow> Inl e
      | (Inr r, w') \<Rightarrow> insert_all w' this vs)"

text \<open>
  A sequence of calls of \<^verbatim>\<open>insert\<close> and \<^verbatim>\<open>erase\<close> on one object; the caller catches what a
  call raises and goes on.
\<close>
datatype 'a mutation = Insert 'a | Erase 'a

fun mutate :: "'a world \<Rightarrow> nat \<Rightarrow> 'a mutation \<Rightarrow> 'a world" where
  "mutate w this (Insert v) = snd (set_insert w this v)"
| "mutate w this (Erase v) = snd (set_erase w this v)"

fun mutate_all :: "'a world \<Rightarrow> nat \<Rightarrow> 'a mutation list \<Rightarrow> 'a world" where
  "mutate_all w this [] = w"
| "mutate_all w this (m # ms) = mutate_all (mutate w this m) this ms"

subsection \<open>Assumptions and invariants\<close>

text \<open>The order predicate is assumed to be a strict total order.\<close>
definition strict_total_order :: "('a \<Rightarrow> 'a \<Rightarrow> bool) \<Rightarrow> bool" where
  "strict_total_order lt =
     ((\<forall>a. \<not> lt a a) \<and> (\<forall>a b c. lt a b \<longrightarrow> lt b c \<longrightarrow> lt a c) \<and>
      (\<forall>a b. a \<noteq> b \<longrightarrow> lt a b \<or> lt b a))"

text \<open>
  The object at \<open>this\<close> owns a live engine that was created with the trampolines of
  \<^verbatim>\<open>set<T, CmpFcn>\<close> and whose slots ascend strictly.
\<close>
definition set_ok :: "('a \<Rightarrow> 'a \<Rightarrow> bool) \<Rightarrow> 'a world \<Rightarrow> nat \<Rightarrow> bool" where
  "set_ok lt w this =
     (case m_CSet (objects w this) of None \<Rightarrow> False | Some h \<Rightarrow>
     (case engines w h of None \<Rightarrow> False | Some st \<Rightarrow>
        copyElement st = CopyElementFcn \<and>
        compareElements st = CompareElementFcn lt \<and>
        sorted_wrt lt (slots st)))"

text \<open>The next request for a new engine is granted.\<close>
definition allocation_granted :: "'a world \<Rightarrow> bool" where
  "allocation_granted w = (case alloc_plan w of [] \<Rightarrow> True | granted # rest \<Rightarrow> granted)"

text \<open>The allocator never hands out the address of a live engine.\<close>
definition heap_ok :: "'a world \<Rightarrow> bool" where
  "heap_ok w = (\<forall>h. engines w h \<noteq> None \<longrightarrow> h < next_handle w)"

subsection \<open>The run of \<^verbatim>\<open>set_test.cpp\<close>\<close>

text \<open>
  \<^verbatim>\<open>main\<close> works on \<^verbatim>\<open>set<int>\<close> with the default \<^verbatim>\<open>std::less<int>\<close>. The objects
  \<^verbatim>\<open>sett\<close>, \<^verbatim>\<open>set2\<close> and \<^verbatim>\<open>set3\<close> are put at the addresses 10, 20 and 30.
\<close>
definition world0 :: "int world" where
  "world0 = \<lparr>engines = Map.empty, next_handle = 0, alloc_plan = [],
             objects = (\<lambda>_. \<lparr>m_CSet = None\<rparr>)\<rparr>"

text \<open>After \<^verbatim>\<open>set<int> sett; sett.insert(2); sett.insert(1);\<close>\<close>
definition main_sett :: "int world" where
  "main_sett = snd (set_insert (snd (set_insert (snd (set_ctor (<) world0 10)) 10 2)) 10 1)"

text \<open>After \<^verbatim>\<open>set<int> set2(sett);\<close>\<close>
definition main_copied :: "int world" where
  "main_copied = snd (set_copy_ctor main_sett 20 10)"

text \<open>After \<^verbatim>\<open>set2.erase(2);\<close>\<close>
definition main_set2 :: "int world" where
  "main_set2 = snd (set_erase main_copied 20 2)"

text \<open>After \<^verbatim>\<open>set<int> set3;\<close>\<close>
definition main_set3 :: "int world" where
  "main_set3 = snd (set_ctor (<) main_set2 30)"

text \<open>The engine \<^verbatim>\<open>set<int>\<close> creates, holding the given elements.\<close>
definition engine_of :: "int list \<Rightarrow> int Set_t" where
  "engine_of xs = \<lparr>slots = xs, copyElement = CopyElementFcn, freeElement = DestroyElementFcn,
                   compareElements = CompareElementFcn (<)\<rparr>"

section \<open>Properties\<close>

subsection \<open>Iteration and lookup\<close>

lemma end_loop_eq: "end_loop w it = \<lparr>m_Owner = m_Owner it, m_Current = None\<rparr>"
proof (induction w it rule: end_loop.induct)
  case (1 w iterator)
  show ?case
  proof (cases "m_Current iterator")
    case None
    then show ?thesis by (simp add: end_loop.simps [of w iterator])
  next
    case (Some i)
    then have "end_loop w iterator = end_loop w (operator_inc w iterator)"
      by (simp add: end_loop.simps [of w iterator])
    also have "\<dots> = \<lparr>m_Owner = m_Owner (operator_inc w iterator), m_Current = None\<rparr>"
      using Some by (intro "1.IH") simp
    finally show ?thesis by (simp add: operator_inc_def)
  qed
qed

lemma set_end_eq: "set_end w this = \<lparr>m_Owner = this, m_Current = None\<rparr>"
  by (simp add: set_end_def end_loop_eq set_begin_def)

lemma operator_neq_set_end: "operator_neq it (set_end w this) = (m_Current it \<noteq> None)"
  by (simp add: operator_neq_def operator_eq_def set_end_eq)

lemma setGetElement_contents:
  "setGetElement w (m_CSet (objects w this)) (Some i) =
     (if i < length (contents w this) then Some (contents w this ! i) else None)"
  by (simp add: setGetElement_def contents_def split: option.splits)

lemma setGetNext_contents:
  "setGetNext w (m_CSet (objects w this)) (Some i) =
     (if Suc i < length (contents w this) then Some (Suc i) else None)"
  by (simp add: setGetNext_def contents_def split: option.splits)

lemma setGetFirst_contents:
  "setGetFirst w (m_CSet (objects w this)) = (if contents w this = [] then None else Some 0)"
  by (simp add: setGetFirst_def contents_def split: option.splits)

lemma operator_deref_at:
  "operator_deref w \<lparr>m_Owner = this, m_Current = Some i\<rparr> =
     (if i < length (contents w this) then Inr (contents w this ! i) else Inl InvalidIterator)"
  by (simp add: operator_deref_def setGetElement_contents)

lemma operator_deref_NULL:
  "operator_deref w \<lparr>m_Owner = this, m_Current = None\<rparr> = Inl InvalidIterator"
  by (simp add: operator_deref_def setGetElement_def split: option.splits)

lemma operator_inc_at:
  "operator_inc w \<lparr>m_Owner = this, m_Current = Some i\<rparr> =
     \<lparr>m_Owner = this,
      m_Current = (if Suc i < length (contents w this) then Some (Suc i) else None)\<rparr>"
  by (simp add: operator_inc_def setGetNext_contents)

lemma find_loop_NULL:
  "find_loop w this v \<lparr>m_Owner = this, m_Current = None\<rparr> = Inl ElementNotFound"
  by (simp add: find_loop.simps [of w this v] operator_neq_set_end)

lemma find_loop_from:
  "i < length (contents w this) \<Longrightarrow>
   find_loop w this v \<lparr>m_Owner = this, m_Current = Some i\<rparr> =
     (if v \<in> set (drop i (contents w this))
      then Inr \<lparr>m_Owner = this,
                m_Current = Some (i + length (takeWhile (\<lambda>x. x \<noteq> v) (drop i (contents w this))))\<rparr>
      else Inl ElementNotFound)"
proof (induction "length (contents w this) - i" arbitrary: i)
  case 0
  then show ?case by simp
next
  case (Suc n)
  let ?xs = "contents w this"
  have split: "drop i ?xs = ?xs ! i # drop (Suc i) ?xs"
    using Suc.prems by (simp add: Cons_nth_drop_Suc)
  show ?case
  proof (cases "?xs ! i = v")
    case True
    then show ?thesis
      using Suc.prems
      by (simp add: find_loop.simps [of w this v "\<lparr>m_Owner = this, m_Current = Some i\<rparr>"]
          operator_neq_set_end operator_deref_at split)
  next
    case False
    show ?thesis
    proof (cases "Suc i < length ?xs")
      case True
      have "n = length ?xs - Suc i"
        using Suc.hyps(2) by simp
      from Suc.hyps(1) [OF this True] False Suc.prems True show ?thesis
        by (simp add: find_loop.simps [of w this v "\<lparr>m_Owner = this, m_Current = Some i\<rparr>"]
            operator_neq_set_end operator_deref_at operator_inc_at split)
    next
      case last: False
      then have "drop (Suc i) ?xs = []"
        by simp
      with False Suc.prems last show ?thesis
        by (simp add: find_loop.simps [of w this v "\<lparr>m_Owner = this, m_Current = Some i\<rparr>"]
            operator_neq_set_end operator_deref_at operator_inc_at split find_loop_NULL)
    qed
  qed
qed

lemma set_find_eq:
  "set_find w this v =
     (if v \<in> set (contents w this)
      then Inr \<lparr>m_Owner = this,
                m_Current = Some (length (takeWhile (\<lambda>x. x \<noteq> v) (contents w this)))\<rparr>
      else Inl ElementNotFound)"
proof (cases "contents w this = []")
  case True
  then show ?thesis
    by (simp add: set_find_def set_begin_def setGetFirst_contents find_loop_NULL)
next
  case False
  then have "0 < length (contents w this)"
    by simp
  from find_loop_from [OF this, of v] False show ?thesis
    by (simp add: set_find_def set_begin_def setGetFirst_contents)
qed

lemma find_const_loop_eq: "find_const_loop w this v it = find_loop w this v it"
proof (induction w this v it rule: find_loop.induct)
  case (1 w this element it)
  show ?case
  proof (cases "operator_deref w it")
    case (Inl e)
    then show ?thesis
      by (simp add: find_loop.simps [of w this element it]
          find_const_loop.simps [of w this element it])
  next
    case (Inr x)
    show ?thesis
    proof (cases "operator_neq it (set_end w this) \<and> x \<noteq> element")
      case True
      with Inr "1.IH" [of x] show ?thesis
        by (simp add: find_loop.simps [of w this element it]
            find_const_loop.simps [of w this element it])
    next
      case False
      with Inr show ?thesis
        by (auto simp: find_loop.simps [of w this element it]
            find_const_loop.simps [of w this element it])
    qed
  qed
qed

lemma set_find_const_eq: "set_find_const w this v = set_find w this v"
  by (simp add: set_find_const_def set_find_def find_const_loop_eq)

lemma visit_loop_NULL: "visit_loop w this \<lparr>m_Owner = this, m_Current = None\<rparr> = Inr []"
  by (simp add: visit_loop.simps [of w this] operator_neq_set_end)

lemma visit_loop_from:
  "i < length (contents w this) \<Longrightarrow>
   visit_loop w this \<lparr>m_Owner = this, m_Current = Some i\<rparr> = Inr (drop i (contents w this))"
proof (induction "length (contents w this) - i" arbitrary: i)
  case 0
  then show ?case by simp
next
  case (Suc n)
  let ?xs = "contents w this"
  have split: "drop i ?xs = ?xs ! i # drop (Suc i) ?xs"
    using Suc.prems by (simp add: Cons_nth_drop_Suc)
  show ?case
  proof (cases "Suc i < length ?xs")
    case True
    have "n = length ?xs - Suc i"
      using Suc.hyps(2) by simp
    from Suc.hyps(1) [OF this True] Suc.prems True show ?thesis
      by (simp add: visit_loop.simps [of w this "\<lparr>m_Owner = this, m_Current = Some i\<rparr>"]
          operator_neq_set_end operator_deref_at operator_inc_at split)
  next
    case False
    then have "drop (Suc i) ?xs = []"
      by simp
    with Suc.prems False show ?thesis
      by (simp add: visit_loop.simps [of w this "\<lparr>m_Owner = this, m_Current = Some i\<rparr>"]
          operator_neq_set_end operator_deref_at operator_inc_at split visit_loop_NULL)
  qed
qed

lemma iterate_eq: "iterate w this = Inr (contents w this)"
proof (cases "contents w this = []")
  case True
  then show ?thesis
    by (simp add: iterate_def set_cbegin_def set_begin_def setGetFirst_contents visit_loop_NULL)
next
  case False
  then have "0 < length (contents w this)"
    by simp
  from visit_loop_from [OF this] False show ?thesis
    by (simp add: iterate_def set_cbegin_def set_begin_def setGetFirst_contents)
qed

subsection \<open>The scan\<close>

lemma CompareElementFcn_less: "(CompareElementFcn lt (Some x) (Some v) < 0) = lt x v"
  by (simp add: CompareElementFcn_def)

lemma CompareElementFcn_zero:
  "(CompareElementFcn lt (Some x) (Some v) = 0) = (\<not> lt x v \<and> \<not> lt v x)"
  by (simp add: CompareElementFcn_def)

lemma locate_CompareElementFcn:
  "locate (CompareElementFcn lt) (Some v) xs =
     (length (takeWhile (\<lambda>x. lt x v) xs),
      (case dropWhile (\<lambda>x. lt x v) xs of [] \<Rightarrow> False | y # ys \<Rightarrow> \<not> lt v y))"
  by (induction xs) (simp_all add: CompareElementFcn_less CompareElementFcn_zero)

lemma sorted_dropWhile_head:
  assumes "strict_total_order lt" and "sorted_wrt lt xs"
  shows "(case dropWhile (\<lambda>x. lt x v) xs of [] \<Rightarrow> False | y # ys \<Rightarrow> \<not> lt v y) = (v \<in> set xs)"
  using assms(2)
proof (induction xs)
  case Nil
  then show ?case by simp
next
  case (Cons x xs)
  from assms(1) have irrefl: "\<And>a. \<not> lt a a"
    and trans: "\<And>a b c. lt a b \<Longrightarrow> lt b c \<Longrightarrow> lt a c"
    and total: "\<And>a b. a \<noteq> b \<Longrightarrow> lt a b \<or> lt b a"
    by (auto simp: strict_total_order_def)
  show ?case
  proof (cases "lt x v")
    case True
    then have "x \<noteq> v" using irrefl by auto
    with True Cons show ?thesis by simp
  next
    case False
    have "v \<notin> set xs" if "x \<noteq> v"
    proof
      assume "v \<in> set xs"
      with Cons.prems have "lt x v" by simp
      with False show False by simp
    qed
    with False total [of x v] irrefl [of v] show ?thesis
      by auto
  qed
qed

lemma locate_sorted:
  assumes "strict_total_order lt" and "sorted_wrt lt xs"
  shows "locate (CompareElementFcn lt) (Some v) xs =
           (length (takeWhile (\<lambda>x. lt x v) xs), v \<in> set xs)"
  by (simp add: locate_CompareElementFcn sorted_dropWhile_head [OF assms])

subsection \<open>The ordered sequence of slots\<close>

lemma sorted_wrt_insert_between:
  assumes "sorted_wrt lt (before @ after)"
    and "\<forall>x \<in> set before. lt x v"
    and "\<forall>y \<in> set after. lt v y"
  shows "sorted_wrt lt (before @ v # after)"
  using assms by (simp add: sorted_wrt_append)

lemma sorted_insert_slot:
  assumes "strict_total_order lt" and "sorted_wrt lt xs" and "v \<notin> set xs"
  shows "sorted_wrt lt (takeWhile (\<lambda>x. lt x v) xs @ v # dropWhile (\<lambda>x. lt x v) xs)"
proof -
  let ?P = "\<lambda>x. lt x v"
  from assms(1) have trans: "\<And>a b c. lt a b \<Longrightarrow> lt b c \<Longrightarrow> lt a c"
    and total: "\<And>a b. a \<noteq> b \<Longrightarrow> lt a b \<or> lt b a"
    by (auto simp: strict_total_order_def)
  have whole: "sorted_wrt lt (takeWhile ?P xs @ dropWhile ?P xs)"
    using assms(2) by simp
  have before: "\<forall>x \<in> set (takeWhile ?P xs). lt x v"
    by (auto dest: set_takeWhileD)
  have after: "\<forall>y \<in> set (dropWhile ?P xs). lt v y"
  proof (cases "dropWhile ?P xs")
    case Nil
    then show ?thesis by (simp del: dropWhile_eq_Nil_conv)
  next
    case (Cons y ys)
    then have "\<not> lt y v"
      using hd_dropWhile [of ?P xs] by auto
    moreover have "y \<in> set xs"
      using Cons set_dropWhileD [of y ?P xs] by simp
    ultimately have "lt v y"
      using total [of y v] assms(3) by auto
    moreover have "\<forall>z \<in> set ys. lt y z"
      using whole Cons by (simp add: sorted_wrt_append)
    ultimately show ?thesis
      using Cons trans by auto
  qed
  from whole before after show ?thesis
    by (rule sorted_wrt_insert_between)
qed

lemma set_insert_slot:
  "set (takeWhile P xs @ v # dropWhile P xs) = insert v (set xs)"
proof -
  have "set (takeWhile P xs @ v # dropWhile P xs) =
        insert v (set (takeWhile P xs @ dropWhile P xs))"
    by (simp only: set_append list.set) auto
  then show ?thesis by simp
qed

lemma sorted_wrt_distinct:
  assumes "\<And>a. \<not> lt a a" and "sorted_wrt lt xs"
  shows "distinct xs"
  using assms(2) by (induction xs) (use assms(1) in auto)

lemma dropWhile_present:
  assumes "strict_total_order lt" and "sorted_wrt lt xs" and "v \<in> set xs"
  shows "\<exists>ys. dropWhile (\<lambda>x. lt x v) xs = v # ys"
proof -
  let ?P = "\<lambda>x. lt x v"
  from assms(1) have total: "\<And>a b. a \<noteq> b \<Longrightarrow> lt a b \<or> lt b a"
    by (auto simp: strict_total_order_def)
  from sorted_dropWhile_head [OF assms(1,2), of v] assms(3)
  obtain y ys where d: "dropWhile ?P xs = y # ys" and "\<not> lt v y"
    by (auto split: list.splits)
  moreover have "\<not> lt y v"
    using hd_dropWhile [of ?P xs] d by auto
  ultimately have "y = v"
    using total [of y v] by auto
  with d show ?thesis by simp
qed

lemma remove_slot:
  assumes "strict_total_order lt" and "sorted_wrt lt xs" and "v \<in> set xs"
  defines "k \<equiv> length (takeWhile (\<lambda>x. lt x v) xs)"
  shows "sorted_wrt lt (take k xs @ drop (Suc k) xs)"
    and "set (take k xs @ drop (Suc k) xs) = set xs - {v}"
    and "length (take k xs @ drop (Suc k) xs) = length xs - 1"
    and "k < length xs"
proof -
  let ?P = "\<lambda>x. lt x v"
  define pre where "pre = takeWhile ?P xs"
  from assms(1) have irrefl: "\<And>a. \<not> lt a a"
    by (auto simp: strict_total_order_def)
  obtain ys where d: "dropWhile ?P xs = v # ys"
    using dropWhile_present [OF assms(1-3)] by auto
  have k: "k = length pre"
    by (simp add: k_def pre_def)
  have xs: "xs = pre @ v # ys"
    using d takeWhile_dropWhile_id [of ?P xs] by (simp add: pre_def)
  have tk: "take k xs = pre"
    by (simp add: xs k)
  have dr: "drop (Suc k) xs = ys"
    by (simp add: xs k)
  have "sorted_wrt lt (pre @ v # ys)"
    using assms(2) by (simp add: xs)
  then show "sorted_wrt lt (take k xs @ drop (Suc k) xs)"
    unfolding tk dr by (auto simp: sorted_wrt_append)
  have "distinct (pre @ v # ys)"
    using sorted_wrt_distinct [OF irrefl assms(2)] by (simp add: xs)
  then have "v \<notin> set pre" "v \<notin> set ys"
    by auto
  then show "set (take k xs @ drop (Suc k) xs) = set xs - {v}"
    unfolding tk dr by (auto simp: xs)
  show "length (take k xs @ drop (Suc k) xs) = length xs - 1"
    unfolding tk dr by (simp add: xs)
  show "k < length xs"
    by (simp add: xs k)
qed

subsection \<open>Insertion and removal through the adapter\<close>

lemma set_okD:
  assumes "set_ok lt w this"
  obtains h st where "m_CSet (objects w this) = Some h" and "engines w h = Some st"
    and "copyElement st = CopyElementFcn" and "compareElements st = CompareElementFcn lt"
    and "sorted_wrt lt (slots st)" and "contents w this = slots st"
  using assms by (auto simp: set_ok_def contents_def split: option.splits)

lemma set_okI:
  assumes "m_CSet (objects w this) = Some h" and "engines w h = Some st"
    and "copyElement st = CopyElementFcn" and "compareElements st = CompareElementFcn lt"
    and "sorted_wrt lt (slots st)"
  shows "set_ok lt w this"
  using assms by (simp add: set_ok_def)

lemma contents_update:
  "m_CSet (objects w this) = Some h \<Longrightarrow>
   contents (w\<lparr>engines := (engines w)(h \<mapsto> st)\<rparr>) this = slots st"
  by (simp add: contents_def)

lemma first_index_less:
  "v \<in> set xs \<Longrightarrow> length (takeWhile (\<lambda>x. x \<noteq> v) xs) < length xs"
  by (induction xs) auto

lemma set_find_deref:
  assumes "set_find w this v = Inr it"
  shows "operator_deref w it = Inr v"
proof -
  let ?xs = "contents w this"
  let ?k = "length (takeWhile (\<lambda>x. x \<noteq> v) ?xs)"
  from assms have mem: "v \<in> set ?xs" and it: "it = \<lparr>m_Owner = this, m_Current = Some ?k\<rparr>"
    by (auto simp: set_find_eq split: if_splits)
  from mem have less: "?k < length ?xs"
    by (rule first_index_less)
  from nth_length_takeWhile [OF less] have "?xs ! ?k = v"
    by simp
  with less show ?thesis
    by (simp add: it operator_deref_at)
qed

lemma set_size_live:
  "m_CSet (objects w this) = Some h \<Longrightarrow> engines w h = Some st \<Longrightarrow>
   set_size w this = Inr (int (length (slots st)))"
  by (simp add: set_size_def setGetSize_def)

lemma set_insert_present:
  assumes "strict_total_order lt" and "set_ok lt w this" and "v \<in> set (contents w this)"
  shows "set_insert w this v =
           (Inr (\<lparr>m_Owner = this,
                  m_Current = Some (length (takeWhile (\<lambda>x. x \<noteq> v) (contents w this)))\<rparr>, False), w)"
proof -
  from assms(2) obtain h st where h: "m_CSet (objects w this) = Some h"
    and st: "engines w h = Some st"
    and fcn: "copyElement st = CopyElementFcn" "compareElements st = CompareElementFcn lt"
    and sorted: "sorted_wrt lt (slots st)" and c: "contents w this = slots st"
    by (rule set_okD)
  have "setAdd w (Some h) (Some v) = (SET_ITEM_ALREADY_EXISTS, w)"
    using assms(3) by (simp add: setAdd_def st fcn locate_sorted [OF assms(1) sorted] c)
  then show ?thesis
    using assms(3) by (simp add: set_insert_def h set_find_eq)
qed

lemma set_insert_absent:
  assumes "strict_total_order lt" and "set_ok lt w this" and "v \<notin> set (contents w this)"
    and "m_CSet (objects w this) = Some h" and "engines w h = Some st"
  defines "new \<equiv> takeWhile (\<lambda>x. lt x v) (slots st) @ v # dropWhile (\<lambda>x. lt x v) (slots st)"
  shows "set_insert w this v =
           (Inr (\<lparr>m_Owner = this,
                  m_Current = Some (length (takeWhile (\<lambda>x. x \<noteq> v) new))\<rparr>, True),
            w\<lparr>engines := (engines w)(h \<mapsto> st\<lparr>slots := new\<rparr>)\<rparr>)"
proof -
  let ?P = "\<lambda>x. lt x v"
  from assms(2,4,5) have fcn: "copyElement st = CopyElementFcn"
      "compareElements st = CompareElementFcn lt"
    and sorted: "sorted_wrt lt (slots st)" and c: "contents w this = slots st"
    by (auto elim!: set_okD)
  let ?w' = "w\<lparr>engines := (engines w)(h \<mapsto> st\<lparr>slots := new\<rparr>)\<rparr>"
  have "setAdd w (Some h) (Some v) = (SET_SUCCESS, ?w')"
    using assms(3)
    by (simp add: setAdd_def assms(5) fcn locate_sorted [OF assms(1) sorted] c
        CopyElementFcn_def new_def takeWhile_eq_take [symmetric] dropWhile_eq_drop [symmetric])
  moreover have "contents ?w' this = new"
    using assms(4) by (simp add: contents_def)
  moreover have "v \<in> set new"
    by (simp add: new_def)
  ultimately show ?thesis
    by (simp add: set_insert_def assms(4) set_find_eq)
qed

lemma set_ok_insert_absent:
  assumes "strict_total_order lt" and "set_ok lt w this" and "v \<notin> set (contents w this)"
  shows "\<exists>it w'. set_insert w this v = (Inr (it, True), w') \<and> set_ok lt w' this \<and>
           set (contents w' this) = insert v (set (contents w this)) \<and>
           length (contents w' this) = Suc (length (contents w this)) \<and>
           w' = snd (setAdd w (m_CSet (objects w this)) (Some v)) \<and>
           set_find w' this v = Inr it"
proof -
  let ?P = "\<lambda>x. lt x v"
  from assms(2) obtain h st where h: "m_CSet (objects w this) = Some h"
    and st: "engines w h = Some st"
    and fcn: "copyElement st = CopyElementFcn" "compareElements st = CompareElementFcn lt"
    and sorted: "sorted_wrt lt (slots st)" and c: "contents w this = slots st"
    by (rule set_okD)
  define new where "new = takeWhile ?P (slots st) @ v # dropWhile ?P (slots st)"
  let ?w' = "w\<lparr>engines := (engines w)(h \<mapsto> st\<lparr>slots := new\<rparr>)\<rparr>"
  let ?it = "\<lparr>m_Owner = this, m_Current = Some (length (takeWhile (\<lambda>x. x \<noteq> v) new))\<rparr>"
  have ins: "set_insert w this v = (Inr (?it, True), ?w')"
    using set_insert_absent [OF assms h st] by (simp add: new_def)
  have add: "setAdd w (Some h) (Some v) = (SET_SUCCESS, ?w')"
    using assms(3)
    by (simp add: setAdd_def st fcn locate_sorted [OF assms(1) sorted] c
        CopyElementFcn_def new_def takeWhile_eq_take [symmetric] dropWhile_eq_drop [symmetric])
  have c': "contents ?w' this = new"
    using h by (simp add: contents_def)
  have "sorted_wrt lt new"
    unfolding new_def using assms(3) by (intro sorted_insert_slot [OF assms(1) sorted]) (simp add: c)
  then have ok: "set_ok lt ?w' this"
    using h fcn by (simp add: set_ok_def)
  have set: "set new = insert v (set (slots st))"
    unfolding new_def by (rule set_insert_slot)
  have len: "length new = Suc (length (slots st))"
    unfolding new_def using takeWhile_dropWhile_id [of ?P "slots st"]
    by (metis length_append length_Cons add_Suc_right)
  have "set_find ?w' this v = Inr ?it"
    by (simp add: set_find_eq c' set)
  with ins ok set len add show ?thesis
    by (simp add: c c' h)
qed

lemma set_erase_present:
  assumes "strict_total_order lt" and "set_ok lt w this" and "v \<in> set (contents w this)"
  shows "\<exists>w'. set_erase w this v = (Inr (), w') \<and> set_ok lt w' this \<and>
           set (contents w' this) = set (contents w this) - {v} \<and>
           length (contents w' this) = length (contents w this) - 1 \<and>
           objects w' = objects w"
proof -
  let ?P = "\<lambda>x. lt x v"
  from assms(2) obtain h st where h: "m_CSet (objects w this) = Some h"
    and st: "engines w h = Some st"
    and fcn: "copyElement st = CopyElementFcn" "compareElements st = CompareElementFcn lt"
    and sorted: "sorted_wrt lt (slots st)" and c: "contents w this = slots st"
    by (rule set_okD)
  define k where "k = length (takeWhile ?P (slots st))"
  define new where "new = take k (slots st) @ drop (Suc k) (slots st)"
  let ?w' = "w\<lparr>engines := (engines w)(h \<mapsto> st\<lparr>slots := new\<rparr>)\<rparr>"
  from assms(3) have mem: "v \<in> set (slots st)"
    by (simp add: c)
  have rem: "setRemove w (Some h) (Some v) = (SET_SUCCESS, ?w')"
    using mem by (simp add: setRemove_def st fcn locate_sorted [OF assms(1) sorted] new_def k_def)
  have c': "contents ?w' this = new"
    using h by (simp add: contents_def)
  from remove_slot [OF assms(1) sorted mem]
  have "sorted_wrt lt new" and set: "set new = set (slots st) - {v}"
    and len: "length new = length (slots st) - 1"
    by (simp_all only: new_def k_def)
  then have ok: "set_ok lt ?w' this"
    using h fcn by (simp add: set_ok_def)
  have "set_erase w this v = (Inr (), ?w')"
    by (simp add: set_erase_def h rem)
  with ok set len show ?thesis
    by (simp add: c c')
qed

lemma set_erase_absent:
  assumes "strict_total_order lt" and "set_ok lt w this" and "v \<notin> set (contents w this)"
  shows "set_erase w this v = (Inl ElementNotFound, w)"
proof -
  from assms(2) obtain h st where h: "m_CSet (objects w this) = Some h"
    and st: "engines w h = Some st"
    and fcn: "copyElement st = CopyElementFcn" "compareElements st = CompareElementFcn lt"
    and sorted: "sorted_wrt lt (slots st)" and c: "contents w this = slots st"
    by (rule set_okD)
  have "setRemove w (Some h) (Some v) = (SET_ITEM_DOES_NOT_EXIST, w)"
    using assms(3) by (simp add: setRemove_def st fcn locate_sorted [OF assms(1) sorted] c)
  then show ?thesis
    by (simp add: set_erase_def h)
qed

lemma set_ctor_ok:
  assumes "set_ctor lt w this = (Inr (), w1)"
  shows "set_ok lt w1 this" and "contents w1 this = []"
  using assms
  by (auto simp: set_ctor_def setCreate_def alloc_handle_def Let_def set_ok_def contents_def
      split: list.splits if_splits)

lemma insert_all_ok:
  assumes "strict_total_order lt" and "set_ok lt w this"
  shows "\<exists>w'. insert_all w this vs = Inr w' \<and> set_ok lt w' this \<and>
           set (contents w' this) = set (contents w this) \<union> set vs"
  using assms(2)
proof (induction vs arbitrary: w)
  case Nil
  then show ?case by simp
next
  case (Cons v vs)
  show ?case
  proof (cases "v \<in> set (contents w this)")
    case True
    from set_insert_present [OF assms(1) Cons.prems True] Cons.IH [OF Cons.prems] True
    show ?thesis by auto
  next
    case False
    from set_ok_insert_absent [OF assms(1) Cons.prems False]
    obtain it w' where ins: "set_insert w this v = (Inr (it, True), w')"
      and ok: "set_ok lt w' this"
      and set: "set (contents w' this) = insert v (set (contents w this))"
      by blast
    from Cons.IH [OF ok] ins set show ?thesis by auto
  qed
qed

lemma ascending_not_equal:
  assumes "sorted_wrt lt xs" and "i < j" and "j < length xs"
  shows "CompareElementFcn lt (Some (xs ! i)) (Some (xs ! j)) \<noteq> 0"
proof -
  from assms have "lt (xs ! i) (xs ! j)"
    by (simp add: sorted_wrt_iff_nth_less)
  then show ?thesis
    by (simp add: CompareElementFcn_def)
qed

lemma compare_zero_iff:
  assumes "strict_total_order lt"
  shows "(CompareElementFcn lt (Some x) (Some v) = 0) = (x = v)"
  using assms by (auto simp: CompareElementFcn_def strict_total_order_def)

lemma set_size_ok:
  "set_ok lt w this \<Longrightarrow> set_size w this = Inr (int (length (contents w this)))"
  by (auto simp: set_size_def setGetSize_def elim!: set_okD)

subsection \<open>Separation of two objects\<close>

lemma setAdd_frame:
  assumes "setAdd w s e = (r, w')"
  shows "objects w' = objects w" and "next_handle w' = next_handle w"
    and "alloc_plan w' = alloc_plan w" and "\<And>h. Some h \<noteq> s \<Longrightarrow> engines w' h = engines w h"
  using assms by (auto simp: setAdd_def split: option.splits prod.splits if_splits)

lemma setRemove_frame:
  assumes "setRemove w s e = (r, w')"
  shows "objects w' = objects w" and "next_handle w' = next_handle w"
    and "alloc_plan w' = alloc_plan w" and "\<And>h. Some h \<noteq> s \<Longrightarrow> engines w' h = engines w h"
  using assms by (auto simp: setRemove_def split: option.splits prod.splits if_splits)

lemma set_insert_frame:
  "objects (snd (set_insert w a v)) = objects w"
  "Some h \<noteq> m_CSet (objects w a) \<Longrightarrow> engines (snd (set_insert w a v)) h = engines w h"
proof -
  obtain r w' where add: "setAdd w (m_CSet (objects w a)) (Some v) = (r, w')"
    by (cases "setAdd w (m_CSet (objects w a)) (Some v)")
  then have snd: "snd (set_insert w a v) = (if m_CSet (objects w a) = None then w else w')"
    by (simp add: set_insert_def split: sum.splits)
  from setAdd_frame(1) [OF add] snd show "objects (snd (set_insert w a v)) = objects w"
    by simp
  assume "Some h \<noteq> m_CSet (objects w a)"
  from setAdd_frame(4) [OF add this] snd
  show "engines (snd (set_insert w a v)) h = engines w h"
    by simp
qed

lemma set_erase_frame:
  "objects (snd (set_erase w a v)) = objects w"
  "Some h \<noteq> m_CSet (objects w a) \<Longrightarrow> engines (snd (set_erase w a v)) h = engines w h"
proof -
  obtain r w' where rem: "setRemove w (m_CSet (objects w a)) (Some v) = (r, w')"
    by (cases "setRemove w (m_CSet (objects w a)) (Some v)")
  then have snd: "snd (set_erase w a v) = (if m_CSet (objects w a) = None then w else w')"
    by (simp add: set_erase_def)
  from setRemove_frame(1) [OF rem] snd show "objects (snd (set_erase w a v)) = objects w"
    by simp
  assume "Some h \<noteq> m_CSet (objects w a)"
  from setRemove_frame(4) [OF rem this] snd
  show "engines (snd (set_erase w a v)) h = engines w h"
    by simp
qed

lemma mutate_frame:
  "objects (mutate w a m) = objects w"
  "Some h \<noteq> m_CSet (objects w a) \<Longrightarrow> engines (mutate w a m) h = engines w h"
  by (cases m; simp add: set_insert_frame set_erase_frame)+

lemma mutate_all_frame:
  "objects (mutate_all w a ms) = objects w \<and>
   (Some h \<noteq> m_CSet (objects w a) \<longrightarrow> engines (mutate_all w a ms) h = engines w h)"
proof (induction ms arbitrary: w)
  case Nil
  show ?case by simp
next
  case (Cons m ms)
  from Cons [of "mutate w a m"] show ?case
    by (simp add: mutate_frame)
qed

text \<open>What an object shows depends on its handle and on the engine there only.\<close>
lemma same_view:
  assumes "m_CSet (objects w' b) = m_CSet (objects w b)"
    and "\<And>h. m_CSet (objects w b) = Some h \<Longrightarrow> engines w' h = engines w h"
  shows "contents w' b = contents w b" and "set_size w' b = set_size w b"
    and "set_find w' b v = set_find w b v"
proof -
  show c: "contents w' b = contents w b"
    using assms by (cases "m_CSet (objects w b)") (simp_all add: contents_def)
  show "set_size w' b = set_size w b"
    using assms by (cases "m_CSet (objects w b)") (simp_all add: set_size_def setGetSize_def)
  show "set_find w' b v = set_find w b v"
    by (simp add: set_find_eq c)
qed

lemma isolation:
  assumes "m_CSet (objects w a) \<noteq> m_CSet (objects w b)"
  shows "contents (mutate_all w a ms) b = contents w b"
    and "set_size (mutate_all w a ms) b = set_size w b"
    and "set_find (mutate_all w a ms) b v = set_find w b v"
proof -
  have obj: "m_CSet (objects (mutate_all w a ms) b) = m_CSet (objects w b)"
    using mutate_all_frame [of w a ms] by simp
  have eng: "engines (mutate_all w a ms) h = engines w h" if "m_CSet (objects w b) = Some h" for h
    using mutate_all_frame [of w a ms h] assms that by auto
  from same_view [OF obj eng]
  show "contents (mutate_all w a ms) b = contents w b"
    and "set_size (mutate_all w a ms) b = set_size w b"
    and "set_find (mutate_all w a ms) b v = set_find w b v"
    by auto
qed

lemma copy_slots_CopyElementFcn: "copy_slots CopyElementFcn xs = Some xs"
  by (induction xs) (simp_all add: CopyElementFcn_def)

lemma setCopy_success:
  assumes "setCopy w s = (Some h', w')"
  shows "\<exists>h st cs. s = Some h \<and> engines w h = Some st \<and>
           copy_slots (copyElement st) (slots st) = Some cs \<and> h' = next_handle w \<and>
           objects w' = objects w \<and> engines w' = (engines w)(h' \<mapsto> st\<lparr>slots := cs\<rparr>)"
  using assms
  by (auto simp: setCopy_def alloc_handle_def split: option.splits list.splits if_splits)

lemma copy_ctor_shape:
  assumes "heap_ok w" and "set_ok lt w source"
    and "set_copy_ctor w this source = (Inr (), w1)"
  shows "\<exists>hs st. this \<noteq> source \<and> m_CSet (objects w source) = Some hs \<and> engines w hs = Some st \<and>
           slots st = contents w source \<and> hs \<noteq> next_handle w \<and>
           objects w1 = (objects w)(this := \<lparr>m_CSet = Some (next_handle w)\<rparr>) \<and>
           engines w1 = (engines w)(next_handle w \<mapsto> st)"
proof -
  let ?w0 = "w\<lparr>objects := (objects w)(this := \<lparr>m_CSet = None\<rparr>)\<rparr>"
  from assms(3) obtain h' w' where cp: "setCopy ?w0 (m_CSet (objects ?w0 source)) = (Some h', w')"
    and w1: "w1 = w'\<lparr>objects := (objects w')(this := \<lparr>m_CSet = Some h'\<rparr>)\<rparr>"
    by (auto simp: set_copy_ctor_def Let_def split: prod.splits if_splits)
  from setCopy_success [OF cp] obtain hs st cs where src: "m_CSet (objects ?w0 source) = Some hs"
    and st: "engines w hs = Some st" and h': "h' = next_handle w"
    and cs: "copy_slots (copyElement st) (slots st) = Some cs"
    and obj: "objects w' = objects ?w0"
    and eng: "engines w' = (engines w)(h' \<mapsto> st\<lparr>slots := cs\<rparr>)"
    by auto
  from src have neq: "this \<noteq> source"
    by (auto split: if_splits)
  with src have hs: "m_CSet (objects w source) = Some hs"
    by simp
  from assms(2) hs st have fcn: "copyElement st = CopyElementFcn"
    and c: "slots st = contents w source"
    by (auto elim!: set_okD)
  from cs fcn have "cs = slots st"
    by (simp add: copy_slots_CopyElementFcn)
  with eng have eng': "engines w' = (engines w)(h' \<mapsto> st)"
    by simp
  from assms(1) st have "hs \<noteq> next_handle w"
    by (auto simp: heap_ok_def)
  with neq hs st c w1 obj eng' h' show ?thesis
    by simp
qed

lemma assign_shape:
  assumes "heap_ok w" and "set_ok lt w source" and "this \<noteq> source"
    and "operator_assign w this source = (Inr this, w1)"
  shows "\<exists>hs st. m_CSet (objects w source) = Some hs \<and> engines w hs = Some st \<and>
           slots st = contents w source \<and> hs \<noteq> next_handle w \<and>
           objects w1 = (objects w)(this := \<lparr>m_CSet = Some (next_handle w)\<rparr>) \<and>
           engines w1 hs = Some st \<and> engines w1 (next_handle w) = Some st"
proof -
  let ?w0 = "setDestroy w (m_CSet (objects w this))"
  have w0: "objects ?w0 = objects w" "next_handle ?w0 = next_handle w"
    "\<And>h. engines ?w0 h = (if Some h = m_CSet (objects w this) then None else engines w h)"
    by (auto simp: setDestroy_def split: option.splits)
  from assms(3,4) obtain h' w' where cp: "setCopy ?w0 (m_CSet (objects ?w0 source)) = (Some h', w')"
    and w1: "w1 = w'\<lparr>objects := (objects w')(this := \<lparr>m_CSet = Some h'\<rparr>)\<rparr>"
    by (auto simp: operator_assign_def Let_def split: prod.splits if_splits)
  from setCopy_success [OF cp] obtain hs st cs where src: "m_CSet (objects ?w0 source) = Some hs"
    and st0: "engines ?w0 hs = Some st" and h': "h' = next_handle ?w0"
    and cs: "copy_slots (copyElement st) (slots st) = Some cs"
    and obj: "objects w' = objects ?w0"
    and eng: "engines w' = (engines ?w0)(h' \<mapsto> st\<lparr>slots := cs\<rparr>)"
    by auto
  from src have hs: "m_CSet (objects w source) = Some hs"
    by (simp add: w0)
  from st0 have st: "engines w hs = Some st"
    by (auto simp: w0 split: if_splits)
  from assms(2) hs st have fcn: "copyElement st = CopyElementFcn"
    and c: "slots st = contents w source"
    by (auto elim!: set_okD)
  from cs fcn have "cs = slots st"
    by (simp add: copy_slots_CopyElementFcn)
  with eng have eng': "engines w' = (engines ?w0)(h' \<mapsto> st)"
    by simp
  from assms(1) st have fresh: "hs \<noteq> next_handle w"
    by (auto simp: heap_ok_def)
  from eng' st0 fresh h' have "engines w1 hs = Some st" "engines w1 (next_handle w) = Some st"
    by (simp_all add: w1 w0)
  with hs st c fresh w1 obj h' show ?thesis
    by (simp add: w0)
qed

lemma copy_ctor_granted:
  assumes "set_ok lt w source" and "this \<noteq> source"
  shows "allocation_granted w \<Longrightarrow> \<exists>w1. set_copy_ctor w this source = (Inr (), w1)"
    and "\<not> allocation_granted w \<Longrightarrow> fst (set_copy_ctor w this source) = Inl Exception"
proof -
  from assms(1) obtain h st where h: "m_CSet (objects w source) = Some h"
    and st: "engines w h = Some st" and fcn: "copyElement st = CopyElementFcn"
    by (rule set_okD)
  show "\<exists>w1. set_copy_ctor w this source = (Inr (), w1)" if "allocation_granted w"
    using that assms(2) h st fcn
    by (auto simp: set_copy_ctor_def Let_def setCopy_def alloc_handle_def
        copy_slots_CopyElementFcn allocation_granted_def split: list.splits)
  show "fst (set_copy_ctor w this source) = Inl Exception" if "\<not> allocation_granted w"
    using that assms(2) h st fcn
    by (auto simp: set_copy_ctor_def Let_def setCopy_def alloc_handle_def
        allocation_granted_def split: list.splits)
qed

lemma assign_granted:
  assumes "set_ok lt w source" and "this \<noteq> source"
  shows "allocation_granted w \<Longrightarrow> m_CSet (objects w this) \<noteq> m_CSet (objects w source) \<Longrightarrow>
           \<exists>w1. operator_assign w this source = (Inr this, w1)"
    and "\<not> allocation_granted w \<Longrightarrow> fst (operator_assign w this source) = Inl Exception"
proof -
  from assms(1) obtain h st where h: "m_CSet (objects w source) = Some h"
    and st: "engines w h = Some st" and fcn: "copyElement st = CopyElementFcn"
    by (rule set_okD)
  let ?w0 = "setDestroy w (m_CSet (objects w this))"
  have w0: "objects ?w0 = objects w" "next_handle ?w0 = next_handle w"
    "alloc_plan ?w0 = alloc_plan w"
    "\<And>h. engines ?w0 h = (if Some h = m_CSet (objects w this) then None else engines w h)"
    by (auto simp: setDestroy_def split: option.splits)
  show "\<exists>w1. operator_assign w this source = (Inr this, w1)"
    if "allocation_granted w" and "m_CSet (objects w this) \<noteq> m_CSet (objects w source)"
    using that assms(2) h st fcn
    by (auto simp: operator_assign_def Let_def setCopy_def alloc_handle_def w0
        copy_slots_CopyElementFcn allocation_granted_def split: list.splits)
  show "fst (operator_assign w this source) = Inl Exception" if "\<not> allocation_granted w"
    using that assms(2) h st fcn
    by (auto simp: operator_assign_def Let_def setCopy_def alloc_handle_def w0
        allocation_granted_def split: list.splits option.splits)
qed

lemma copy_isolated:
  assumes "heap_ok w" and "set_ok lt w source" and "this \<noteq> source"
    and "set_copy_ctor w this source = (Inr (), w1) \<or>
         operator_assign w this source = (Inr this, w1)"
  shows "contents w1 this = contents w source \<and> contents w1 source = contents w source \<and>
         copy_slots CopyElementFcn (contents w source) = Some (contents w1 this) \<and>
         m_CSet (objects w1 source) = m_CSet (objects w source) \<and>
         (\<exists>h. m_CSet (objects w1 this) = Some h \<and> engines w h = None) \<and>
         m_CSet (objects w1 this) \<noteq> m_CSet (objects w1 source) \<and>
         (\<forall>ms v. set_size (mutate_all w1 source ms) this = set_size w1 this \<and>
                 contents (mutate_all w1 source ms) this = contents w1 this \<and>
                 set_find (mutate_all w1 source ms) this v = set_find w1 this v) \<and>
         (\<forall>ms v. set_size (mutate_all w1 this ms) source = set_size w1 source \<and>
                 contents (mutate_all w1 this ms) source = contents w1 source \<and>
                 set_find (mutate_all w1 this ms) source v = set_find w1 source v)"
proof -
  have "\<exists>hs st. m_CSet (objects w source) = Some hs \<and> engines w hs = Some st \<and>
           slots st = contents w source \<and> hs \<noteq> next_handle w \<and>
           objects w1 = (objects w)(this := \<lparr>m_CSet = Some (next_handle w)\<rparr>) \<and>
           engines w1 hs = Some st \<and> engines w1 (next_handle w) = Some st"
    using assms(4)
  proof
    assume "set_copy_ctor w this source = (Inr (), w1)"
    from copy_ctor_shape [OF assms(1,2) this] show ?thesis
      by auto
  next
    assume "operator_assign w this source = (Inr this, w1)"
    from assign_shape [OF assms(1-3) this] show ?thesis .
  qed
  then obtain hs st where hs: "m_CSet (objects w source) = Some hs"
    and c: "slots st = contents w source" and fresh: "hs \<noteq> next_handle w"
    and obj: "objects w1 = (objects w)(this := \<lparr>m_CSet = Some (next_handle w)\<rparr>)"
    and eng: "engines w1 hs = Some st" "engines w1 (next_handle w) = Some st"
    by blast
  from obj hs assms(3) have handles: "m_CSet (objects w1 this) = Some (next_handle w)"
      "m_CSet (objects w1 source) = Some hs"
    by simp_all
  with fresh have neq: "m_CSet (objects w1 source) \<noteq> m_CSet (objects w1 this)"
    by simp
  have same: "contents w1 this = contents w source" "contents w1 source = contents w source"
    using handles eng c by (simp_all add: contents_def)
  have unused: "engines w (next_handle w) = None"
    using assms(1) by (auto simp: heap_ok_def)
  have "copy_slots CopyElementFcn (contents w source) = Some (contents w1 this)"
    by (simp add: same copy_slots_CopyElementFcn)
  moreover have "m_CSet (objects w1 source) = m_CSet (objects w source)"
    using handles hs by simp
  moreover have "\<exists>h. m_CSet (objects w1 this) = Some h \<and> engines w h = None"
    using handles unused by simp
  moreover have "m_CSet (objects w1 this) \<noteq> m_CSet (objects w1 source)"
    using neq by simp
  ultimately show ?thesis
    using same isolation [OF neq] isolation [OF neq [symmetric]] by simp
qed

subsection \<open>The run of the test program\<close>

lemmas engine_eval = setAdd_def setRemove_def setCreate_def setCopy_def setDestroy_def
  setClear_def setGetSize_def alloc_handle_def CompareElementFcn_def CopyElementFcn_def

lemmas adapter_eval = set_ctor_def set_copy_ctor_def operator_assign_def set_insert_def
  set_erase_def set_clear_def set_size_def set_find_eq contents_def Let_def

lemma strict_total_order_int: "strict_total_order ((<) :: int \<Rightarrow> int \<Rightarrow> bool)"
  by (auto simp: strict_total_order_def)

lemma main_ctor_eq:
  "set_ctor (<) world0 10 =
     (Inr (), \<lparr>engines = [0 \<mapsto> engine_of []], next_handle = 1, alloc_plan = [],
               objects = (\<lambda>_. \<lparr>m_CSet = None\<rparr>)(10 := \<lparr>m_CSet = Some 0\<rparr>)\<rparr>)"
  by (simp add: world0_def engine_of_def engine_eval adapter_eval)

lemma main_sett_eq:
  "main_sett =
     \<lparr>engines = [0 \<mapsto> engine_of [1, 2]], next_handle = 1, alloc_plan = [],
      objects = (\<lambda>_. \<lparr>m_CSet = None\<rparr>)(10 := \<lparr>m_CSet = Some 0\<rparr>)\<rparr>"
  by (simp add: main_sett_def world0_def engine_of_def engine_eval adapter_eval)

lemma main_copy_ctor_eq:
  "set_copy_ctor main_sett 20 10 =
     (Inr (), \<lparr>engines = [0 \<mapsto> engine_of [1, 2], 1 \<mapsto> engine_of [1, 2]], next_handle = 2,
               alloc_plan = [],
               objects = (\<lambda>_. \<lparr>m_CSet = None\<rparr>)
                 (10 := \<lparr>m_CSet = Some 0\<rparr>, 20 := \<lparr>m_CSet = Some 1\<rparr>)\<rparr>)"
  by (simp add: main_sett_eq engine_of_def engine_eval adapter_eval)

lemma main_copied_eq:
  "main_copied =
     \<lparr>engines = [0 \<mapsto> engine_of [1, 2], 1 \<mapsto> engine_of [1, 2]], next_handle = 2,
      alloc_plan = [],
      objects = (\<lambda>_. \<lparr>m_CSet = None\<rparr>)(10 := \<lparr>m_CSet = Some 0\<rparr>, 20 := \<lparr>m_CSet = Some 1\<rparr>)\<rparr>"
  by (simp only: main_copied_def main_copy_ctor_eq snd_conv)

lemma main_set2_eq:
  "main_set2 =
     \<lparr>engines = [0 \<mapsto> engine_of [1, 2], 1 \<mapsto> engine_of [1]], next_handle = 2,
      alloc_plan = [],
      objects = (\<lambda>_. \<lparr>m_CSet = None\<rparr>)(10 := \<lparr>m_CSet = Some 0\<rparr>, 20 := \<lparr>m_CSet = Some 1\<rparr>)\<rparr>"
  by (simp add: main_set2_def main_copied_eq engine_of_def engine_eval adapter_eval)

lemma main_set3_eq:
  "main_set3 =
     \<lparr>engines = [0 \<mapsto> engine_of [1, 2], 1 \<mapsto> engine_of [1], 2 \<mapsto> engine_of []],
      next_handle = 3, alloc_plan = [],
      objects = (\<lambda>_. \<lparr>m_CSet = None\<rparr>)
        (10 := \<lparr>m_CSet = Some 0\<rparr>, 20 := \<lparr>m_CSet = Some 1\<rparr>, 30 := \<lparr>m_CSet = Some 2\<rparr>)\<rparr>"
  by (simp add: main_set3_def main_set2_eq engine_of_def engine_eval adapter_eval)

lemma main_assign_eq:
  "operator_assign main_set3 30 20 =
     (Inr 30,
      \<lparr>engines = [0 \<mapsto> engine_of [1, 2], 1 \<mapsto> engine_of [1], 3 \<mapsto> engine_of [1]],
       next_handle = 4, alloc_plan = [],
       objects = (\<lambda>_. \<lparr>m_CSet = None\<rparr>)
         (10 := \<lparr>m_CSet = Some 0\<rparr>, 20 := \<lparr>m_CSet = Some 1\<rparr>, 30 := \<lparr>m_CSet = Some 3\<rparr>)\<rparr>)"
  by (simp add: main_set3_eq engine_of_def engine_eval adapter_eval fun_upd_twist)

lemma main_heap_ok: "heap_ok main_sett" "heap_ok main_set2" "heap_ok main_set3"
  by (simp_all add: heap_ok_def main_sett_eq main_set2_eq main_set3_eq)

lemma main_set_ok:
  "set_ok (<) main_sett 10" "set_ok (<) main_copied 20" "set_ok (<) main_set2 10"
  "set_ok (<) main_set2 20" "set_ok (<) main_set3 20"
  by (simp_all add: set_ok_def main_sett_eq main_copied_eq main_set2_eq main_set3_eq engine_of_def)

lemma main_contents:
  "contents main_sett 10 = [1, 2]" "contents main_copied 20 = [1, 2]"
  "contents main_set2 10 = [1, 2]" "contents main_set2 20 = [1]"
  by (simp_all add: contents_def main_sett_eq main_copied_eq main_set2_eq engine_of_def)

lemma setCopy_failure:
  assumes "setCopy w s = (None, w')"
  shows "engines w' = engines w" and "objects w' = objects w"
  using assms
  by (auto simp: setCopy_def alloc_handle_def split: option.splits list.splits if_splits)

lemma assign_raises:
  assumes "this \<noteq> source" and "operator_assign w this source = (Inl e, w')"
  shows "e = Exception" and "m_CSet (objects w' this) = None"
    and "set_size w' this = Inl AssertionFailed" and "contents w' this = []"
    and "\<And>h. m_CSet (objects w this) = Some h \<Longrightarrow> engines w' h = None"
proof -
  let ?w0 = "setDestroy w (m_CSet (objects w this))"
  have w0: "\<And>h. engines ?w0 h = (if Some h = m_CSet (objects w this) then None else engines w h)"
    by (auto simp: setDestroy_def split: option.splits)
  from assms obtain w1 where cp: "setCopy ?w0 (m_CSet (objects ?w0 source)) = (None, w1)"
    and w': "w' = w1\<lparr>objects := (objects w1)(this := \<lparr>m_CSet = None\<rparr>)\<rparr>" and e: "e = Exception"
    by (auto simp: operator_assign_def Let_def split: prod.splits if_splits)
  show "e = Exception"
    by (rule e)
  show null: "m_CSet (objects w' this) = None"
    by (simp add: w')
  then show "set_size w' this = Inl AssertionFailed" and "contents w' this = []"
    by (simp_all add: set_size_def contents_def)
  fix h assume "m_CSet (objects w this) = Some h"
  with setCopy_failure(1) [OF cp] w0 [of h] show "engines w' h = None"
    by (simp add: w')
qed

lemma other_raises_unchanged:
  "set_erase w this v = (Inl e, w') \<Longrightarrow> w' = w"
  "set_erase_iter w this p = (Inl e, w') \<Longrightarrow> w' = w"
  "set_clear w this = (Inl e, w') \<Longrightarrow> w' = w"
  "set_insert w this v = (Inl e, w') \<Longrightarrow> e \<noteq> ElementNotFound \<Longrightarrow> w' = w"
proof -
  show erase: "w' = w" if "set_erase w this v = (Inl e, w')" for v
    using that
    by (auto simp: set_erase_def setRemove_def split: if_splits option.splits prod.splits)
  show "w' = w" if "set_erase_iter w this p = (Inl e, w')"
    using that erase by (auto simp: set_erase_iter_def split: sum.splits)
  show "w' = w" if "set_clear w this = (Inl e, w')"
    using that by (auto simp: set_clear_def split: if_splits)
  show "w' = w" if "set_insert w this v = (Inl e, w')" and "e \<noteq> ElementNotFound"
    using that
    by (auto simp: set_insert_def setAdd_def set_find_eq
        split: if_splits option.splits prod.splits sum.splits)
qed

text \<open>
  Why the order has to be total: \<^verbatim>\<open>find\<close> compares with \<^verbatim>\<open>operator==\<close>, the engine with
  \<^verbatim>\<open>CmpFcn\<close>. Under an order that compares the last decimal digit only, 1 and 11 are
  equivalent but not equal; after \<^verbatim>\<open>insert(1)\<close> the engine reports that 11 exists already and
  the \<^verbatim>\<open>find(11)\<close> inside \<^verbatim>\<open>insert(11)\<close> raises \<^verbatim>\<open>ElementNotFound\<close>.
\<close>
lemma insert_equivalent_not_equal:
  "fst (set_insert (snd (set_insert (snd (set_ctor (\<lambda>a b. a mod 10 < b mod 10) world0 10)) 10 1))
     10 11) = Inl ElementNotFound"
  by (simp add: world0_def engine_eval adapter_eval)

section \<open>The claims\<close>

text \<open>
  C1. After \<^verbatim>\<open>set()\<close> and any sequence of calls of \<^verbatim>\<open>insert\<close>, no call raises, and the
  iteration from \<^verbatim>\<open>begin()\<close> to \<^verbatim>\<open>end()\<close> visits exactly the inserted values, in strictly
  ascending order under \<^verbatim>\<open>CmpFcn\<close>; no two visited elements compare equal. As the sequence
  is arbitrary, this holds after every call. The order predicate is a strict total order.
\<close>
theorem insert_sequence_ascending:
  assumes "strict_total_order lt" and "set_ctor lt w this = (Inr (), w1)"
  shows "\<exists>w2 xs. insert_all w1 this vs = Inr w2 \<and> iterate w2 this = Inr xs \<and>
           sorted_wrt lt xs \<and> set xs = set vs \<and> set_ok lt w2 this \<and>
           (\<forall>i j. i < j \<longrightarrow> j < length xs \<longrightarrow>
              CompareElementFcn lt (Some (xs ! i)) (Some (xs ! j)) \<noteq> 0)"
proof -
  from set_ctor_ok [OF assms(2)] have ok1: "set_ok lt w1 this" and "contents w1 this = []"
    by auto
  with insert_all_ok [OF assms(1) ok1, of vs]
  obtain w2 where ins: "insert_all w1 this vs = Inr w2" and ok2: "set_ok lt w2 this"
    and set: "set (contents w2 this) = set vs"
    by auto
  from ok2 have sorted: "sorted_wrt lt (contents w2 this)"
    by (auto elim: set_okD)
  from ins ok2 set sorted ascending_not_equal [OF sorted] show ?thesis
    by (auto simp: iterate_eq)
qed

theorem insert_sequence_ascending_witness:
  "strict_total_order ((<) :: int \<Rightarrow> int \<Rightarrow> bool) \<and>
   set_ctor (<) world0 10 = (Inr (), snd (set_ctor (<) world0 10)) \<and>
   (\<exists>w2 xs. insert_all (snd (set_ctor (<) world0 10)) 10 [2, 1, 2, 3] = Inr w2 \<and>
      iterate w2 10 = Inr xs \<and> sorted_wrt (<) xs \<and> set xs = set [2, 1, 2, 3] \<and>
      set_ok (<) w2 10 \<and>
      (\<forall>i j. i < j \<longrightarrow> j < length xs \<longrightarrow>
         CompareElementFcn (<) (Some (xs ! i)) (Some (xs ! j)) \<noteq> 0))"
proof -
  have h1: "strict_total_order ((<) :: int \<Rightarrow> int \<Rightarrow> bool)"
    by (rule strict_total_order_int)
  have h2: "set_ctor (<) world0 10 = (Inr (), snd (set_ctor (<) world0 10))"
    by (simp add: main_ctor_eq)
  from insert_sequence_ascending [OF h1 h2, where vs = "[2, 1, 2, 3]"] h1 h2 show ?thesis
    by blast
qed

text \<open>
  C2. \<^verbatim>\<open>insert(v)\<close> on a set returns a pair. If no stored element compares equal to \<open>v\<close>,
  \<open>v\<close> is added, the size grows by one, and the pair is the position of \<open>v\<close> and
  \<^verbatim>\<open>true\<close>. If a stored element compares equal to \<open>v\<close>, nothing changes and the pair is the
  position of that element and \<^verbatim>\<open>false\<close>. In both cases the position is the one
  \<^verbatim>\<open>find(v)\<close> gives in the state the engine's add left.
\<close>
theorem insert_result:
  assumes "strict_total_order lt" and "set_ok lt w this"
  shows "((\<forall>x \<in> set (contents w this). CompareElementFcn lt (Some x) (Some v) \<noteq> 0) \<longrightarrow>
            (\<exists>it w'. set_insert w this v = (Inr (it, True), w') \<and>
               w' = snd (setAdd w (m_CSet (objects w this)) (Some v)) \<and>
               set_find w' this v = Inr it \<and> operator_deref w' it = Inr v \<and>
               set (contents w' this) = insert v (set (contents w this)) \<and>
               set_size w' this = Inr (int (length (contents w this)) + 1))) \<and>
         ((\<exists>x \<in> set (contents w this). CompareElementFcn lt (Some x) (Some v) = 0) \<longrightarrow>
            (\<exists>it. set_insert w this v = (Inr (it, False), w) \<and>
               w = snd (setAdd w (m_CSet (objects w this)) (Some v)) \<and>
               set_find w this v = Inr it \<and> operator_deref w it = Inr v))"
proof (intro conjI impI)
  assume "\<forall>x \<in> set (contents w this). CompareElementFcn lt (Some x) (Some v) \<noteq> 0"
  then have absent: "v \<notin> set (contents w this)"
    by (auto simp: compare_zero_iff [OF assms(1)])
  from set_ok_insert_absent [OF assms absent]
  obtain it w' where ins: "set_insert w this v = (Inr (it, True), w')"
    and ok: "set_ok lt w' this"
    and set: "set (contents w' this) = insert v (set (contents w this))"
    and len: "length (contents w' this) = Suc (length (contents w this))"
    and w': "w' = snd (setAdd w (m_CSet (objects w this)) (Some v))"
    and find: "set_find w' this v = Inr it"
    by blast
  have "set_size w' this = Inr (int (length (contents w this)) + 1)"
    by (simp add: set_size_ok [OF ok] len)
  with ins set w' find set_find_deref [OF find]
  show "\<exists>it w'. set_insert w this v = (Inr (it, True), w') \<and>
          w' = snd (setAdd w (m_CSet (objects w this)) (Some v)) \<and>
          set_find w' this v = Inr it \<and> operator_deref w' it = Inr v \<and>
          set (contents w' this) = insert v (set (contents w this)) \<and>
          set_size w' this = Inr (int (length (contents w this)) + 1)"
    by blast
next
  assume "\<exists>x \<in> set (contents w this). CompareElementFcn lt (Some x) (Some v) = 0"
  then have present: "v \<in> set (contents w this)"
    by (auto simp: compare_zero_iff [OF assms(1)])
  let ?it = "\<lparr>m_Owner = this,
              m_Current = Some (length (takeWhile (\<lambda>x. x \<noteq> v) (contents w this)))\<rparr>"
  have ins: "set_insert w this v = (Inr (?it, False), w)"
    by (rule set_insert_present [OF assms present])
  have find: "set_find w this v = Inr ?it"
    using present by (simp add: set_find_eq)
  from assms(2) obtain h st where h: "m_CSet (objects w this) = Some h"
    and st: "engines w h = Some st"
    and fcn: "compareElements st = CompareElementFcn lt"
    and sorted: "sorted_wrt lt (slots st)" and c: "contents w this = slots st"
    by (rule set_okD)
  have "setAdd w (m_CSet (objects w this)) (Some v) = (SET_ITEM_ALREADY_EXISTS, w)"
    using present by (simp add: setAdd_def h st fcn locate_sorted [OF assms(1) sorted] c)
  with ins find set_find_deref [OF find]
  show "\<exists>it. set_insert w this v = (Inr (it, False), w) \<and>
          w = snd (setAdd w (m_CSet (objects w this)) (Some v)) \<and>
          set_find w this v = Inr it \<and> operator_deref w it = Inr v"
    by simp
qed

theorem insert_result_witness:
  "strict_total_order ((<) :: int \<Rightarrow> int \<Rightarrow> bool) \<and> set_ok (<) main_sett 10 \<and>
   contents main_sett 10 = [1, 2] \<and>
   CompareElementFcn (<) (Some 1) (Some (3 :: int)) \<noteq> 0 \<and>
   CompareElementFcn (<) (Some 2) (Some (3 :: int)) \<noteq> 0 \<and>
   (\<exists>it w'. set_insert main_sett 10 3 = (Inr (it, True), w') \<and>
      w' = snd (setAdd main_sett (m_CSet (objects main_sett 10)) (Some 3)) \<and>
      set_find w' 10 3 = Inr it \<and> operator_deref w' it = Inr 3 \<and>
      set (contents w' 10) = insert 3 (set (contents main_sett 10)) \<and>
      set_size w' 10 = Inr (int (length (contents main_sett 10)) + 1)) \<and>
   (\<exists>x \<in> set (contents main_sett 10). CompareElementFcn (<) (Some x) (Some 2) = 0) \<and>
   (\<exists>it. set_insert main_sett 10 2 = (Inr (it, False), main_sett) \<and>
      main_sett = snd (setAdd main_sett (m_CSet (objects main_sett 10)) (Some 2)) \<and>
      set_find main_sett 10 2 = Inr it \<and> operator_deref main_sett it = Inr 2)"
proof -
  have h1: "strict_total_order ((<) :: int \<Rightarrow> int \<Rightarrow> bool)"
    by (rule strict_total_order_int)
  have h2: "set_ok (<) main_sett 10"
    by (rule main_set_ok)
  have new: "\<forall>x \<in> set (contents main_sett 10). CompareElementFcn (<) (Some x) (Some 3) \<noteq> 0"
    by (simp add: main_contents CompareElementFcn_def)
  have old: "\<exists>x \<in> set (contents main_sett 10). CompareElementFcn (<) (Some x) (Some 2) = 0"
    by (simp add: main_contents CompareElementFcn_def)
  have cmp: "CompareElementFcn (<) (Some 1) (Some (3 :: int)) \<noteq> 0"
    "CompareElementFcn (<) (Some 2) (Some (3 :: int)) \<noteq> 0"
    by (simp_all add: CompareElementFcn_def)
  from insert_result [OF h1 h2, where v = 3] insert_result [OF h1 h2, where v = 2] h1 h2 new old
    cmp main_contents(1)
  show ?thesis
    by blast
qed

text \<open>
  C3. \<^verbatim>\<open>find(v)\<close> walks the positions from \<^verbatim>\<open>begin()\<close> to \<^verbatim>\<open>end()\<close> and compares \<^verbatim>\<open>*it\<close>
  with \<open>v\<close>: if a stored element equals \<open>v\<close> it returns a position of this set whose
  dereference is \<open>v\<close>, otherwise it raises \<^verbatim>\<open>ElementNotFound\<close>. The \<^verbatim>\<open>const\<close> overload returns
  the same in every state.
\<close>
theorem find_result:
  "(v \<in> set (contents w this) \<longrightarrow>
      (\<exists>it. set_find w this v = Inr it \<and> m_Owner it = this \<and> operator_deref w it = Inr v)) \<and>
   (v \<notin> set (contents w this) \<longrightarrow> set_find w this v = Inl ElementNotFound) \<and>
   set_find_const w this v = set_find w this v"
proof (intro conjI impI)
  assume "v \<in> set (contents w this)"
  then obtain it where find: "set_find w this v = Inr it" and "m_Owner it = this"
    by (simp add: set_find_eq)
  with set_find_deref [OF find]
  show "\<exists>it. set_find w this v = Inr it \<and> m_Owner it = this \<and> operator_deref w it = Inr v"
    by blast
next
  assume "v \<notin> set (contents w this)"
  then show "set_find w this v = Inl ElementNotFound"
    by (simp add: set_find_eq)
next
  show "set_find_const w this v = set_find w this v"
    by (rule set_find_const_eq)
qed

theorem find_result_witness:
  "(2 :: int) \<in> set (contents main_sett 10) \<and>
   (\<exists>it. set_find main_sett 10 2 = Inr it \<and> m_Owner it = 10 \<and>
      operator_deref main_sett it = Inr 2) \<and>
   (3 :: int) \<notin> set (contents main_sett 10) \<and>
   set_find main_sett 10 3 = Inl ElementNotFound \<and>
   set_find_const main_sett 10 3 = set_find main_sett 10 3"
proof -
  have present: "(2 :: int) \<in> set (contents main_sett 10)"
    and absent: "(3 :: int) \<notin> set (contents main_sett 10)"
    by (simp_all add: main_contents)
  from find_result [where v = 2 and w = main_sett and this = 10]
    find_result [where v = 3 and w = main_sett and this = 10] present absent
  show ?thesis
    by blast
qed

text \<open>
  C4. \<^verbatim>\<open>erase(v)\<close> on a set that stores \<open>v\<close> removes it: the membership loses \<open>v\<close> only,
  the size drops by one and a following \<^verbatim>\<open>find(v)\<close> raises \<^verbatim>\<open>ElementNotFound\<close>. On a set
  that does not store \<open>v\<close> the engine reports \<^verbatim>\<open>SET_ITEM_DOES_NOT_EXIST\<close>, \<^verbatim>\<open>erase\<close> raises
  \<^verbatim>\<open>ElementNotFound\<close> and nothing changes.
\<close>
theorem erase_result:
  assumes "strict_total_order lt" and "set_ok lt w this"
  shows "(v \<in> set (contents w this) \<longrightarrow>
            (\<exists>w'. set_erase w this v = (Inr (), w') \<and>
               set (contents w' this) = set (contents w this) - {v} \<and>
               set_size w' this = Inr (int (length (contents w this)) - 1) \<and>
               set_find w' this v = Inl ElementNotFound)) \<and>
         (v \<notin> set (contents w this) \<longrightarrow>
            setRemove w (m_CSet (objects w this)) (Some v) = (SET_ITEM_DOES_NOT_EXIST, w) \<and>
            set_erase w this v = (Inl ElementNotFound, w))"
proof (intro conjI impI)
  assume present: "v \<in> set (contents w this)"
  from set_erase_present [OF assms present]
  obtain w' where er: "set_erase w this v = (Inr (), w')" and ok: "set_ok lt w' this"
    and set: "set (contents w' this) = set (contents w this) - {v}"
    and len: "length (contents w' this) = length (contents w this) - 1"
    by blast
  from present have "0 < length (contents w this)"
    by (cases "contents w this") auto
  then have "int (length (contents w this) - 1) = int (length (contents w this)) - 1"
    by linarith
  then have "set_size w' this = Inr (int (length (contents w this)) - 1)"
    by (simp only: set_size_ok [OF ok] len)
  moreover have "set_find w' this v = Inl ElementNotFound"
    by (simp add: set_find_eq set)
  ultimately show "\<exists>w'. set_erase w this v = (Inr (), w') \<and>
      set (contents w' this) = set (contents w this) - {v} \<and>
      set_size w' this = Inr (int (length (contents w this)) - 1) \<and>
      set_find w' this v = Inl ElementNotFound"
    using er set by blast
next
  assume absent: "v \<notin> set (contents w this)"
  from assms(2) obtain h st where h: "m_CSet (objects w this) = Some h"
    and st: "engines w h = Some st"
    and fcn: "compareElements st = CompareElementFcn lt"
    and sorted: "sorted_wrt lt (slots st)" and c: "contents w this = slots st"
    by (rule set_okD)
  show "setRemove w (m_CSet (objects w this)) (Some v) = (SET_ITEM_DOES_NOT_EXIST, w)"
    using absent by (simp add: setRemove_def h st fcn locate_sorted [OF assms(1) sorted] c)
  show "set_erase w this v = (Inl ElementNotFound, w)"
    by (rule set_erase_absent [OF assms absent])
qed

theorem erase_result_witness:
  "strict_total_order ((<) :: int \<Rightarrow> int \<Rightarrow> bool) \<and> set_ok (<) main_copied 20 \<and>
   (2 :: int) \<in> set (contents main_copied 20) \<and>
   (\<exists>w'. set_erase main_copied 20 2 = (Inr (), w') \<and>
      set (contents w' 20) = set (contents main_copied 20) - {2} \<and>
      set_size w' 20 = Inr (int (length (contents main_copied 20)) - 1) \<and>
      set_find w' 20 2 = Inl ElementNotFound) \<and>
   (3 :: int) \<notin> set (contents main_copied 20) \<and>
   setRemove main_copied (m_CSet (objects main_copied 20)) (Some 3) =
     (SET_ITEM_DOES_NOT_EXIST, main_copied) \<and>
   set_erase main_copied 20 3 = (Inl ElementNotFound, main_copied)"
proof -
  have h1: "strict_total_order ((<) :: int \<Rightarrow> int \<Rightarrow> bool)"
    by (rule strict_total_order_int)
  have h2: "set_ok (<) main_copied 20"
    by (rule main_set_ok)
  have present: "(2 :: int) \<in> set (contents main_copied 20)"
    and absent: "(3 :: int) \<notin> set (contents main_copied 20)"
    by (simp_all add: main_contents)
  from erase_result [OF h1 h2, where v = 2] erase_result [OF h1 h2, where v = 3] h1 h2
    present absent
  show ?thesis
    by blast
qed

text \<open>
  C5. \<^verbatim>\<open>erase(p)\<close> dereferences the position \<open>p\<close> (in the set that issued it) and then
  does what \<^verbatim>\<open>erase\<close> of that value does. If the dereference finds no element, as for an
  invalid position and for \<^verbatim>\<open>end()\<close>, the call raises \<^verbatim>\<open>InvalidIterator\<close> and nothing
  changes.
\<close>
theorem erase_iter_result:
  "(\<forall>x. operator_deref w p = Inr x \<longrightarrow> set_erase_iter w this p = set_erase w this x) \<and>
   (setGetElement w (m_CSet (objects w (m_Owner p))) (m_Current p) = None \<longrightarrow>
      operator_deref w p = Inl InvalidIterator \<and>
      set_erase_iter w this p = (Inl InvalidIterator, w)) \<and>
   ((case m_Current p of None \<Rightarrow> True | Some i \<Rightarrow> length (contents w (m_Owner p)) \<le> i) \<longrightarrow>
      set_erase_iter w this p = (Inl InvalidIterator, w)) \<and>
   set_erase_iter w this (set_end w this) = (Inl InvalidIterator, w)"
proof (intro conjI impI allI)
  fix x assume "operator_deref w p = Inr x"
  then show "set_erase_iter w this p = set_erase w this x"
    by (simp add: set_erase_iter_def)
next
  assume none: "setGetElement w (m_CSet (objects w (m_Owner p))) (m_Current p) = None"
  then show "operator_deref w p = Inl InvalidIterator"
    by (simp add: operator_deref_def)
  with none show "set_erase_iter w this p = (Inl InvalidIterator, w)"
    by (simp add: set_erase_iter_def)
next
  assume "case m_Current p of None \<Rightarrow> True | Some i \<Rightarrow> length (contents w (m_Owner p)) \<le> i"
  then have "setGetElement w (m_CSet (objects w (m_Owner p))) (m_Current p) = None"
    by (cases "m_Current p")
       (auto simp: setGetElement_contents, simp add: setGetElement_def split: option.splits)
  then show "set_erase_iter w this p = (Inl InvalidIterator, w)"
    by (simp add: set_erase_iter_def operator_deref_def)
next
  show "set_erase_iter w this (set_end w this) = (Inl InvalidIterator, w)"
    by (simp add: set_erase_iter_def set_end_eq operator_deref_NULL)
qed

theorem erase_iter_result_witness:
  "operator_deref main_copied (set_begin main_copied 20) = Inr 1 \<and>
   set_erase_iter main_copied 20 (set_begin main_copied 20) = set_erase main_copied 20 1 \<and>
   setGetElement main_copied (m_CSet (objects main_copied 20)) (Some 5) = None \<and>
   operator_deref main_copied \<lparr>m_Owner = 20, m_Current = Some 5\<rparr> = Inl InvalidIterator \<and>
   set_erase_iter main_copied 20 \<lparr>m_Owner = 20, m_Current = Some 5\<rparr> =
     (Inl InvalidIterator, main_copied) \<and>
   set_erase_iter main_copied 20 (set_end main_copied 20) = (Inl InvalidIterator, main_copied)"
proof -
  have first: "operator_deref main_copied (set_begin main_copied 20) = Inr 1"
    by (simp add: set_begin_def setGetFirst_contents operator_deref_at main_contents)
  have stale: "setGetElement main_copied (m_CSet (objects main_copied 20)) (Some 5) = None"
    by (simp add: setGetElement_contents main_contents)
  from erase_iter_result [where w = main_copied and p = "set_begin main_copied 20" and this = 20]
    erase_iter_result [where w = main_copied and p = "\<lparr>m_Owner = 20, m_Current = Some 5\<rparr>"
      and this = 20] first stale
  show ?thesis
    by simp
qed

text \<open>
  C6. Copy construction and copy assignment from a set return whenever the engine's
  allocation is granted (for assignment, when the two objects do not share a handle), and
  raise \<^verbatim>\<open>Exception\<close> when it is refused. A copy that was made holds the elements of the
  source, each passed through the copy function, in an engine that did not exist before;
  the source keeps its handle. Whatever sequence of \<^verbatim>\<open>insert\<close> and \<^verbatim>\<open>erase\<close> is then applied
  to the source, the size, the elements and every \<^verbatim>\<open>find\<close> of the copy stay as they were;
  and the same holds for the source when the copy is changed.
\<close>
theorem deep_copy_isolation:
  assumes "heap_ok w" and "set_ok lt w source" and "this \<noteq> source"
  shows "(allocation_granted w \<longrightarrow> (\<exists>w1. set_copy_ctor w this source = (Inr (), w1))) \<and>
         (allocation_granted w \<and> m_CSet (objects w this) \<noteq> m_CSet (objects w source) \<longrightarrow>
            (\<exists>w1. operator_assign w this source = (Inr this, w1))) \<and>
         (\<not> allocation_granted w \<longrightarrow>
            fst (set_copy_ctor w this source) = Inl Exception \<and>
            fst (operator_assign w this source) = Inl Exception) \<and>
         (\<forall>w1. set_copy_ctor w this source = (Inr (), w1) \<or>
               operator_assign w this source = (Inr this, w1) \<longrightarrow>
            contents w1 this = contents w source \<and> contents w1 source = contents w source \<and>
            copy_slots CopyElementFcn (contents w source) = Some (contents w1 this) \<and>
            m_CSet (objects w1 source) = m_CSet (objects w source) \<and>
            (\<exists>h. m_CSet (objects w1 this) = Some h \<and> engines w h = None) \<and>
            m_CSet (objects w1 this) \<noteq> m_CSet (objects w1 source) \<and>
            (\<forall>ms v. set_size (mutate_all w1 source ms) this = set_size w1 this \<and>
                    contents (mutate_all w1 source ms) this = contents w1 this \<and>
                    set_find (mutate_all w1 source ms) this v = set_find w1 this v) \<and>
            (\<forall>ms v. set_size (mutate_all w1 this ms) source = set_size w1 source \<and>
                    contents (mutate_all w1 this ms) source = contents w1 source \<and>
                    set_find (mutate_all w1 this ms) source v = set_find w1 source v))"
proof -
  have granted_ctor: "allocation_granted w \<longrightarrow> (\<exists>w1. set_copy_ctor w this source = (Inr (), w1))"
    using copy_ctor_granted(1) [OF assms(2,3)] by blast
  have granted_assign:
    "allocation_granted w \<and> m_CSet (objects w this) \<noteq> m_CSet (objects w source) \<longrightarrow>
       (\<exists>w1. operator_assign w this source = (Inr this, w1))"
    using assign_granted(1) [OF assms(2,3)] by blast
  have refused: "\<not> allocation_granted w \<longrightarrow>
      fst (set_copy_ctor w this source) = Inl Exception \<and>
      fst (operator_assign w this source) = Inl Exception"
    using copy_ctor_granted(2) [OF assms(2,3)] assign_granted(2) [OF assms(2,3)] by blast
  have isolated: "\<forall>w1. set_copy_ctor w this source = (Inr (), w1) \<or>
               operator_assign w this source = (Inr this, w1) \<longrightarrow>
            contents w1 this = contents w source \<and> contents w1 source = contents w source \<and>
            copy_slots CopyElementFcn (contents w source) = Some (contents w1 this) \<and>
            m_CSet (objects w1 source) = m_CSet (objects w source) \<and>
            (\<exists>h. m_CSet (objects w1 this) = Some h \<and> engines w h = None) \<and>
            m_CSet (objects w1 this) \<noteq> m_CSet (objects w1 source) \<and>
            (\<forall>ms v. set_size (mutate_all w1 source ms) this = set_size w1 this \<and>
                    contents (mutate_all w1 source ms) this = contents w1 this \<and>
                    set_find (mutate_all w1 source ms) this v = set_find w1 this v) \<and>
            (\<forall>ms v. set_size (mutate_all w1 this ms) source = set_size w1 source \<and>
                    contents (mutate_all w1 this ms) source = contents w1 source \<and>
                    set_find (mutate_all w1 this ms) source v = set_find w1 source v)"
  proof (intro allI impI)
    fix w1
    assume "set_copy_ctor w this source = (Inr (), w1) \<or>
            operator_assign w this source = (Inr this, w1)"
    then show "contents w1 this = contents w source \<and> contents w1 source = contents w source \<and>
        copy_slots CopyElementFcn (contents w source) = Some (contents w1 this) \<and>
        m_CSet (objects w1 source) = m_CSet (objects w source) \<and>
        (\<exists>h. m_CSet (objects w1 this) = Some h \<and> engines w h = None) \<and>
        m_CSet (objects w1 this) \<noteq> m_CSet (objects w1 source) \<and>
        (\<forall>ms v. set_size (mutate_all w1 source ms) this = set_size w1 this \<and>
                contents (mutate_all w1 source ms) this = contents w1 this \<and>
                set_find (mutate_all w1 source ms) this v = set_find w1 this v) \<and>
        (\<forall>ms v. set_size (mutate_all w1 this ms) source = set_size w1 source \<and>
                contents (mutate_all w1 this ms) source = contents w1 source \<and>
                set_find (mutate_all w1 this ms) source v = set_find w1 source v)"
      by (rule copy_isolated [OF assms])
  qed
  show ?thesis
    by (rule conjI [OF granted_ctor conjI [OF granted_assign conjI [OF refused isolated]]])
qed

theorem deep_copy_isolation_witness:
  "heap_ok main_sett \<and> set_ok (<) main_sett 10 \<and> (20 :: nat) \<noteq> 10 \<and>
   allocation_granted main_sett \<and>
   (\<exists>w1. set_copy_ctor main_sett 20 10 = (Inr (), w1) \<and> w1 = main_copied \<and>
      contents w1 20 = [1, 2] \<and> contents w1 10 = [1, 2] \<and>
      m_CSet (objects w1 20) \<noteq> m_CSet (objects w1 10) \<and>
      (\<forall>ms v. set_size (mutate_all w1 10 ms) 20 = set_size w1 20 \<and>
              contents (mutate_all w1 10 ms) 20 = contents w1 20 \<and>
              set_find (mutate_all w1 10 ms) 20 v = set_find w1 20 v) \<and>
      (\<forall>ms v. set_size (mutate_all w1 20 ms) 10 = set_size w1 10 \<and>
              contents (mutate_all w1 20 ms) 10 = contents w1 10 \<and>
              set_find (mutate_all w1 20 ms) 10 v = set_find w1 10 v)) \<and>
   contents (mutate_all main_copied 20 [Erase 2]) 20 = [1] \<and>
   contents (mutate_all main_copied 20 [Erase 2]) 10 = [1, 2] \<and>
   heap_ok main_set3 \<and> set_ok (<) main_set3 20 \<and> (30 :: nat) \<noteq> 20 \<and>
   allocation_granted main_set3 \<and>
   m_CSet (objects main_set3 30) \<noteq> m_CSet (objects main_set3 20) \<and>
   (\<exists>w1. operator_assign main_set3 30 20 = (Inr 30, w1) \<and>
      contents w1 30 = [1] \<and> contents w1 20 = [1] \<and>
      m_CSet (objects w1 30) \<noteq> m_CSet (objects w1 20) \<and>
      (\<forall>ms v. set_size (mutate_all w1 20 ms) 30 = set_size w1 30 \<and>
              contents (mutate_all w1 20 ms) 30 = contents w1 30 \<and>
              set_find (mutate_all w1 20 ms) 30 v = set_find w1 30 v) \<and>
      (\<forall>ms v. set_size (mutate_all w1 30 ms) 20 = set_size w1 20 \<and>
              contents (mutate_all w1 30 ms) 20 = contents w1 20 \<and>
              set_find (mutate_all w1 30 ms) 20 v = set_find w1 20 v)) \<and>
   \<not> allocation_granted (main_set3\<lparr>alloc_plan := [False]\<rparr>) \<and>
   fst (operator_assign (main_set3\<lparr>alloc_plan := [False]\<rparr>) 30 20) = Inl Exception"
proof -
  have a1: "heap_ok main_sett"
    by (rule main_heap_ok)
  have a2: "set_ok (<) main_sett 10"
    by (rule main_set_ok)
  have a3: "(20 :: nat) \<noteq> 10"
    by simp
  have a4: "allocation_granted main_sett"
    by (simp add: allocation_granted_def main_sett_eq)
  have ca: "contents main_sett 10 = [1, 2]"
    by (rule main_contents)
  have b1: "heap_ok main_set3"
    by (rule main_heap_ok)
  have b2: "set_ok (<) main_set3 20"
    by (rule main_set_ok)
  have b3: "(30 :: nat) \<noteq> 20"
    by simp
  have b4: "allocation_granted main_set3"
    and b5: "m_CSet (objects main_set3 30) \<noteq> m_CSet (objects main_set3 20)"
    by (simp_all add: allocation_granted_def main_set3_eq)
  have cb: "contents main_set3 20 = [1]"
    by (simp add: contents_def main_set3_eq engine_of_def)
  have c1: "heap_ok (main_set3\<lparr>alloc_plan := [False]\<rparr>)"
    and c2: "set_ok (<) (main_set3\<lparr>alloc_plan := [False]\<rparr>) 20"
    and c4: "\<not> allocation_granted (main_set3\<lparr>alloc_plan := [False]\<rparr>)"
    by (simp_all add: heap_ok_def set_ok_def allocation_granted_def main_set3_eq engine_of_def)
  have ctor: "set_copy_ctor main_sett 20 10 = (Inr (), main_copied)"
    using main_copy_ctor_eq main_copied_eq by simp
  have run: "contents (mutate_all main_copied 20 [Erase 2]) 20 = [1]"
    "contents (mutate_all main_copied 20 [Erase 2]) 10 = [1, 2]"
    by (simp_all add: main_set2_def [symmetric] main_contents)
  note copy = deep_copy_isolation [OF a1 a2 a3]
  note assign = deep_copy_isolation [OF b1 b2 b3]
  note fails = deep_copy_isolation [OF c1 c2 b3]
  from copy ctor ca have part1:
    "\<exists>w1. set_copy_ctor main_sett 20 10 = (Inr (), w1) \<and> w1 = main_copied \<and>
      contents w1 20 = [1, 2] \<and> contents w1 10 = [1, 2] \<and>
      m_CSet (objects w1 20) \<noteq> m_CSet (objects w1 10) \<and>
      (\<forall>ms v. set_size (mutate_all w1 10 ms) 20 = set_size w1 20 \<and>
              contents (mutate_all w1 10 ms) 20 = contents w1 20 \<and>
              set_find (mutate_all w1 10 ms) 20 v = set_find w1 20 v) \<and>
      (\<forall>ms v. set_size (mutate_all w1 20 ms) 10 = set_size w1 10 \<and>
              contents (mutate_all w1 20 ms) 10 = contents w1 10 \<and>
              set_find (mutate_all w1 20 ms) 10 v = set_find w1 10 v)"
    by (metis (no_types, lifting))
  from assign b4 b5 obtain w1 where ok: "operator_assign main_set3 30 20 = (Inr 30, w1)"
    by blast
  with assign cb have part2:
    "\<exists>w1. operator_assign main_set3 30 20 = (Inr 30, w1) \<and>
      contents w1 30 = [1] \<and> contents w1 20 = [1] \<and>
      m_CSet (objects w1 30) \<noteq> m_CSet (objects w1 20) \<and>
      (\<forall>ms v. set_size (mutate_all w1 20 ms) 30 = set_size w1 30 \<and>
              contents (mutate_all w1 20 ms) 30 = contents w1 30 \<and>
              set_find (mutate_all w1 20 ms) 30 v = set_find w1 30 v) \<and>
      (\<forall>ms v. set_size (mutate_all w1 30 ms) 20 = set_size w1 20 \<and>
              contents (mutate_all w1 30 ms) 20 = contents w1 20 \<and>
              set_find (mutate_all w1 30 ms) 20 v = set_find w1 20 v)"
    by (metis (no_types, lifting))
  from fails c4 have part3:
    "fst (operator_assign (main_set3\<lparr>alloc_plan := [False]\<rparr>) 30 20) = Inl Exception"
    by blast
  from a1 a2 a3 a4 part1 run b1 b2 b3 b4 b5 part2 c4 part3 show ?thesis
    by (intro conjI)
qed

text \<open>
  C7. An operation that raises should leave the container unchanged or with a completed
  mutation. Copy assignment does not: it destroys the engine of the target before it copies
  the source, and when that copy fails \<^verbatim>\<open>operator=\<close> raises and leaves the target with a
  \<^verbatim>\<open>NULL\<close> handle. The elements of the target are gone, and \<^verbatim>\<open>size()\<close> and \<^verbatim>\<open>insert\<close>
  fail their own \<^verbatim>\<open>assert(m_CSet != NULL)\<close>. Here \<^verbatim>\<open>sett = set2\<close> runs in the state
  \<^verbatim>\<open>main\<close> reaches after \<^verbatim>\<open>set2.erase(2)\<close>, with the next allocation failing.
\<close>
theorem assign_allocation_failure:
  "set_size (main_set2\<lparr>alloc_plan := [False]\<rparr>) 10 = Inr 2 \<and>
   contents (main_set2\<lparr>alloc_plan := [False]\<rparr>) 10 = [1, 2] \<and>
   (case operator_assign (main_set2\<lparr>alloc_plan := [False]\<rparr>) 10 20 of
      (r, w') \<Rightarrow>
        r = Inl Exception \<and> m_CSet (objects w' 10) = None \<and> engines w' 0 = None \<and>
        contents w' 10 = [] \<and> set_size w' 10 = Inl AssertionFailed \<and>
        set_insert w' 10 1 = (Inl AssertionFailed, w') \<and>
        contents w' 20 = [1])"
  by (simp add: main_set2_eq engine_of_def engine_eval adapter_eval)

text \<open>
  C8. After \<^verbatim>\<open>clear()\<close> on a set, \<^verbatim>\<open>size()\<close> returns 0, \<^verbatim>\<open>find(v)\<close> raises
  \<^verbatim>\<open>ElementNotFound\<close> for every \<open>v\<close>, and the iteration visits nothing.
\<close>
theorem clear_result:
  assumes "m_CSet (objects w this) = Some h" and "engines w h = Some st"
  shows "\<exists>w'. set_clear w this = (Inr (), w') \<and>
           w' = snd (setClear w (m_CSet (objects w this))) \<and>
           set_size w' this = Inr 0 \<and> (\<forall>v. set_find w' this v = Inl ElementNotFound) \<and>
           iterate w' this = Inr []"
proof -
  let ?w' = "w\<lparr>engines := (engines w)(h \<mapsto> st\<lparr>slots := []\<rparr>)\<rparr>"
  have clr: "setClear w (Some h) = (SET_SUCCESS, ?w')"
    by (simp add: setClear_def assms)
  have c: "contents ?w' this = []"
    using assms(1) by (simp add: contents_def)
  have "set_size ?w' this = Inr 0"
    using assms(1) by (simp add: set_size_def setGetSize_def)
  with clr c show ?thesis
    by (simp add: set_clear_def assms(1) set_find_eq iterate_eq)
qed

theorem clear_result_witness:
  "m_CSet (objects main_sett 10) = Some 0 \<and> engines main_sett 0 = Some (engine_of [1, 2]) \<and>
   (\<exists>w'. set_clear main_sett 10 = (Inr (), w') \<and>
      w' = snd (setClear main_sett (m_CSet (objects main_sett 10))) \<and>
      set_size w' 10 = Inr 0 \<and> (\<forall>v. set_find w' 10 v = Inl ElementNotFound) \<and>
      iterate w' 10 = Inr [])"
proof -
  have h1: "m_CSet (objects main_sett 10) = Some 0"
    and h2: "engines main_sett 0 = Some (engine_of [1, 2])"
    by (simp_all add: main_sett_eq)
  from clear_result [OF h1 h2] h1 h2 show ?thesis
    by blast
qed

text \<open>
  C9. The assignment \<^verbatim>\<open>s = s\<close> returns \<^verbatim>\<open>*this\<close> and changes nothing: the store, and with
  it the size, the elements and the engine handle of \<open>s\<close>, is the one before the call.
\<close>
theorem self_assignment:
  "(case operator_assign w this this of
      (r, w') \<Rightarrow>
        r = Inr this \<and> w' = w \<and> set_size w' this = set_size w this \<and>
        contents w' this = contents w this \<and>
        m_CSet (objects w' this) = m_CSet (objects w this) \<and> engines w' = engines w)"
  by (simp add: operator_assign_def)

theorem self_assignment_witness:
  "operator_assign main_sett 10 10 = (Inr 10, main_sett) \<and> contents main_sett 10 = [1, 2]"
  using self_assignment [where w = main_sett and this = 10] by (simp add: main_contents split: prod.splits)

text \<open>
  C10. \<^verbatim>\<open>operator==\<close> of two positions compares \<^verbatim>\<open>m_Current\<close> only. So \<^verbatim>\<open>end()\<close> of any
  set equals \<^verbatim>\<open>end()\<close> of any other set, and two positions with the same \<^verbatim>\<open>m_Current\<close>
  are equal whatever their owners are.
\<close>
theorem iterator_equality:
  "operator_eq (set_end w1 s1) (set_end w2 s2) \<and>
   operator_eq \<lparr>m_Owner = o1, m_Current = c\<rparr> \<lparr>m_Owner = o2, m_Current = c\<rparr> \<and>
   operator_eq a b = (m_Current a = m_Current b) \<and>
   operator_neq a b = (m_Current a \<noteq> m_Current b)"
  by (simp add: operator_eq_def operator_neq_def set_end_eq)

theorem iterator_equality_witness:
  "operator_eq (set_end main_set2 10) (set_end main_set2 20) \<and>
   m_Owner (set_end main_set2 10) \<noteq> m_Owner (set_end main_set2 20) \<and>
   contents main_set2 10 \<noteq> contents main_set2 20 \<and>
   operator_eq \<lparr>m_Owner = 10, m_Current = Some 0\<rparr> \<lparr>m_Owner = 20, m_Current = Some 0\<rparr>"
  using iterator_equality [where ?w1.0 = main_set2 and ?s1.0 = 10 and ?w2.0 = main_set2
      and ?s2.0 = 20 and ?o1.0 = 10 and ?o2.0 = 20 and c = "Some 0"]
  by (simp add: set_end_eq main_contents)

end
